theory Spec2Isabelle
  imports Main "HOL-Library.AList" "HOL-Library.Sublist"
begin

section \<open>Errors and documents\<close>

text \<open>
  Every exception the index code raises, lets through or catches is a value of
  \<open>error\<close>; an operation that can raise returns \<open>error + 'a\<close> with \<open>Inl\<close> the
  exception. \<open>ConflictError\<close> is what \<open>check_doc_unchanged\<close> raises on a mismatch,
  \<open>ValueError\<close> what \<open>_get_dataset_types\<close> raises, \<open>KeyError\<close>, \<open>TypeError\<close>
  and \<open>AttributeError\<close> are Python's own.
\<close>

datatype error =
    DuplicateRecordError string
  | ConflictError string
  | InvalidDocException string
  | IntegrityError string
  | UnknownFieldError string
  | ValueError string
  | KeyError string
  | TypeError string
  | AttributeError string

text \<open>
  Documents are Python values: the JSON kinds and two kinds that are not JSON (a date and a
  tuple), which is what normalisation is about. A dict is an association list.
\<close>

datatype pyval =
    PNone
  | PBool bool
  | PInt int
  | PStr string
  | PDate string
  | PTuple "pyval list"
  | PList "pyval list"
  | PDict "(string \<times> pyval) list"

text \<open>
  Modelled from the spec: \<open>jsonify_document\<close> of \<open>datacube.utils\<close> is not among the
  sources; it yields the normalised form of a document, the one a JSON column holds: a
  date becomes its text, a tuple becomes a list, containers are normalised inside.
\<close>

fun jsonify_document :: "pyval \<Rightarrow> pyval" where
  "jsonify_document (PDate s) = PStr s"
| "jsonify_document (PTuple xs) = PList (map jsonify_document xs)"
| "jsonify_document (PList xs) = PList (map jsonify_document xs)"
| "jsonify_document (PDict kvs) = PDict (map (\<lambda>(k, v). (k, jsonify_document v)) kvs)"
| "jsonify_document PNone = PNone"
| "jsonify_document (PBool b) = PBool b"
| "jsonify_document (PInt i) = PInt i"
| "jsonify_document (PStr s) = PStr s"

text \<open>
  Modelled from the spec: \<open>check_doc_unchanged(existing, incoming, label)\<close> of
  \<open>datacube.utils\<close> fails with a conflict error carrying the label when the two documents
  differ, and returns nothing otherwise.
\<close>

definition check_doc_unchanged :: "'d \<Rightarrow> 'd \<Rightarrow> string \<Rightarrow> error + unit" where
  "check_doc_unchanged original new doc_name =
     (if original = new then Inr () else Inl (ConflictError doc_name))"

text \<open>\<open>d[k]\<close> on a document: KeyError on a missing key, TypeError on a non-dict.\<close>

definition getitem :: "pyval \<Rightarrow> string \<Rightarrow> error + pyval" where
  "getitem d k =
     (case d of
        PDict kvs \<Rightarrow> (case map_of kvs k of None \<Rightarrow> Inl (KeyError k) | Some v \<Rightarrow> Inr v)
      | _ \<Rightarrow> Inl (TypeError k))"

text \<open>
  A dataset's metadata document, as the two parts the index code tells apart: the lineage
  section \<open>lineage.source_datasets\<close>, which \<open>dataset_reader(doc).sources\<close> reads and
  writes, and everything else.
\<close>

record dataset_doc =
  doc_body :: pyval
  source_datasets :: pyval

definition jsonify_dataset_doc :: "dataset_doc \<Rightarrow> dataset_doc" where
  "jsonify_dataset_doc m =
     \<lparr>doc_body = jsonify_document (doc_body m),
      source_datasets = jsonify_document (source_datasets m)\<rparr>"

section \<open>The model classes\<close>

text \<open>
  Modelled from the spec: \<open>datacube.model\<close> (\<open>MetadataType\<close>, \<open>DatasetType\<close>,
  \<open>Dataset\<close>) is not among the sources. A search field is one of the two columns every
  dataset has, or a path into the document body.
\<close>

datatype field = IdField | DatasetTypeIdField | SimpleDocField "string list"

record MetadataType =
  mt_name :: string
  mt_dataset :: pyval
  dataset_fields :: "(string \<times> field) list"
  mt_id :: nat

record DatasetType =
  dt_metadata_type :: MetadataType
  dt_definition :: pyval
  dt_id :: nat

text \<open>
  \<open>DatasetType.name\<close> and \<open>DatasetType.metadata\<close> read the definition (a validated
  definition has a string under \<open>name\<close>).
\<close>

definition dt_name :: "DatasetType \<Rightarrow> string" where
  "dt_name t = (case getitem (dt_definition t) ''name'' of Inr (PStr s) \<Rightarrow> s | _ \<Rightarrow> [])"

definition dt_metadata :: "DatasetType \<Rightarrow> pyval" where
  "dt_metadata t =
     (case getitem (dt_definition t) ''metadata'' of Inr v \<Rightarrow> v | Inl _ \<Rightarrow> PNone)"

text \<open>
  A dataset holds its sources as a dict from classifier to dataset: an association list
  in the dict's iteration order.
\<close>

datatype Dataset =
  Dataset (ds_id: string) (ds_type: DatasetType) (metadata_doc: dataset_doc)
          (local_uri: "string option") (sources: "(string \<times> Dataset) list")

section \<open>The backing store\<close>

text \<open>
  Modelled from the spec: the store (\<open>datacube.index.postgres\<close>, the \<open>_db\<close> of the three
  resources) is not among the sources. It is modelled as five tables and the operations
  of the interface the resources call. The store keeps its referential constraints: a
  dataset names a registered dataset type, a dataset type a registered metadata type, a
  source edge two stored datasets; a violation is an \<open>IntegrityError\<close>. A second row for
  a key that must be unique is a \<open>DuplicateRecordError\<close>.
\<close>

record metadata_type_row =
  mtr_id :: nat
  mtr_name :: string
  mtr_definition :: pyval

record dataset_type_row =
  dtr_id :: nat
  dtr_name :: string
  dtr_metadata :: pyval
  dtr_metadata_type_ref :: nat
  dtr_definition :: pyval

record dataset_row =
  dsr_id :: string
  dsr_dataset_type_ref :: nat
  dsr_metadata :: dataset_doc
  dsr_archived :: bool

record dataset_source_row =
  dss_classifier :: string
  dss_dataset_ref :: string
  dss_source_dataset_ref :: string

record dataset_location_row =
  dsl_dataset_ref :: string
  dsl_uri :: string

record PostgresDb =
  metadata_type_table :: "metadata_type_row list"
  dataset_type_table :: "dataset_type_row list"
  dataset_table :: "dataset_row list"
  dataset_source_table :: "dataset_source_row list"
  dataset_location_table :: "dataset_location_row list"

definition next_id :: "nat list \<Rightarrow> nat" where
  "next_id ids = Suc (fold max ids 0)"

subsection \<open>Metadata types and dataset types\<close>

definition get_metadata_type :: "PostgresDb \<Rightarrow> nat \<Rightarrow> metadata_type_row option" where
  "get_metadata_type d i = find (\<lambda>r. mtr_id r = i) (metadata_type_table d)"

definition get_metadata_type_by_name :: "PostgresDb \<Rightarrow> string \<Rightarrow> metadata_type_row option" where
  "get_metadata_type_by_name d n = find (\<lambda>r. mtr_name r = n) (metadata_type_table d)"

text \<open>
  \<open>concurrently\<close> chooses how the per-field indexes are built; it does not change the
  rows.
\<close>

definition add_metadata_type :: "PostgresDb \<Rightarrow> string \<Rightarrow> pyval \<Rightarrow> bool \<Rightarrow> PostgresDb" where
  "add_metadata_type d n definition_doc concurrently =
     d\<lparr>metadata_type_table := metadata_type_table d @
         [\<lparr>mtr_id = next_id (map mtr_id (metadata_type_table d)), mtr_name = n,
           mtr_definition = definition_doc\<rparr>]\<rparr>"

definition get_dataset_type :: "PostgresDb \<Rightarrow> nat \<Rightarrow> dataset_type_row option" where
  "get_dataset_type d i = find (\<lambda>r. dtr_id r = i) (dataset_type_table d)"

definition get_dataset_type_by_name :: "PostgresDb \<Rightarrow> string \<Rightarrow> dataset_type_row option" where
  "get_dataset_type_by_name d n = find (\<lambda>r. dtr_name r = n) (dataset_type_table d)"

definition get_all_dataset_types :: "PostgresDb \<Rightarrow> dataset_type_row list" where
  "get_all_dataset_types d = dataset_type_table d"

definition add_dataset_type ::
  "PostgresDb \<Rightarrow> string \<Rightarrow> pyval \<Rightarrow> nat \<Rightarrow> pyval \<Rightarrow> error + PostgresDb" where
  "add_dataset_type d n metadata metadata_type_id definition_doc =
     (if get_metadata_type d metadata_type_id = None
      then Inl (IntegrityError n)
      else Inr (d\<lparr>dataset_type_table := dataset_type_table d @
         [\<lparr>dtr_id = next_id (map dtr_id (dataset_type_table d)), dtr_name = n,
           dtr_metadata = metadata, dtr_metadata_type_ref = metadata_type_id,
           dtr_definition = definition_doc\<rparr>]\<rparr>))"

text \<open>
  The field registry of a metadata type row: the two native fields, then one field per
  entry of the definition's \<open>dataset.search_fields\<close>, read at the entry's \<open>offset\<close>.
\<close>

definition offset_of :: "pyval \<Rightarrow> string list" where
  "offset_of descriptor =
     (case getitem descriptor ''offset'' of
        Inr (PList ps) \<Rightarrow> concat (map (\<lambda>p. case p of PStr s \<Rightarrow> [s] | _ \<Rightarrow> []) ps)
      | _ \<Rightarrow> [])"

definition get_dataset_fields :: "metadata_type_row \<Rightarrow> (string \<times> field) list" where
  "get_dataset_fields r =
     [(''id'', IdField), (''dataset_type_id'', DatasetTypeIdField)] @
     (case getitem (mtr_definition r) ''dataset'' of
        Inr ds \<Rightarrow>
          (case getitem ds ''search_fields'' of
             Inr (PDict kvs) \<Rightarrow> map (\<lambda>(n, descriptor). (n, SimpleDocField (offset_of descriptor))) kvs
           | _ \<Rightarrow> [])
      | _ \<Rightarrow> [])"

subsection \<open>Datasets\<close>

definition get_dataset_row :: "PostgresDb \<Rightarrow> string \<Rightarrow> dataset_row option" where
  "get_dataset_row d i = find (\<lambda>r. dsr_id r = i) (dataset_table d)"

definition contains_dataset :: "PostgresDb \<Rightarrow> string \<Rightarrow> bool" where
  "contains_dataset d i = (get_dataset_row d i \<noteq> None)"

definition get_locations :: "PostgresDb \<Rightarrow> string \<Rightarrow> string list" where
  "get_locations d i =
     map dsl_uri (filter (\<lambda>l. dsl_dataset_ref l = i) (dataset_location_table d))"

text \<open>
  What a dataset query answers per dataset: the row's columns, one of its locations (none
  when it has none), and for the lineage query the parallel arrays of source ids and
  classifiers (a dataset without sources has one null entry in each).
\<close>

record dataset_res =
  res_id :: string
  dataset_type_ref :: nat
  res_metadata :: dataset_doc
  res_local_uri :: "string option"
  res_sources :: "string option list"
  res_classes :: "string option list"

definition source_rows_of :: "PostgresDb \<Rightarrow> string \<Rightarrow> dataset_source_row list" where
  "source_rows_of d i = filter (\<lambda>e. dss_dataset_ref e = i) (dataset_source_table d)"

definition to_dataset_res :: "PostgresDb \<Rightarrow> dataset_row \<Rightarrow> dataset_res" where
  "to_dataset_res d r =
     \<lparr>res_id = dsr_id r,
      dataset_type_ref = dsr_dataset_type_ref r,
      res_metadata = dsr_metadata r,
      res_local_uri = (case get_locations d (dsr_id r) of [] \<Rightarrow> None | u # _ \<Rightarrow> Some u),
      res_sources =
        (case source_rows_of d (dsr_id r) of
           [] \<Rightarrow> [None]
         | es \<Rightarrow> map (\<lambda>e. Some (dss_source_dataset_ref e)) es),
      res_classes =
        (case source_rows_of d (dsr_id r) of
           [] \<Rightarrow> [None]
         | es \<Rightarrow> map (\<lambda>e. Some (dss_classifier e)) es)\<rparr>"

definition get_dataset :: "PostgresDb \<Rightarrow> string \<Rightarrow> dataset_res option" where
  "get_dataset d i = map_option (to_dataset_res d) (get_dataset_row d i)"

text \<open>
  The lineage query: the rows of every dataset reachable from the given one along source
  edges, the dataset itself first. One round adds the sources of the ids found so far; as
  many rounds as the edge table has rows reach them all.
\<close>

definition sources_round :: "PostgresDb \<Rightarrow> string list \<Rightarrow> string list" where
  "sources_round d ids =
     remdups (ids @ map dss_source_dataset_ref
        (filter (\<lambda>e. dss_dataset_ref e \<in> set ids) (dataset_source_table d)))"

definition get_dataset_sources :: "PostgresDb \<Rightarrow> string \<Rightarrow> dataset_res list" where
  "get_dataset_sources d i =
     concat (map (\<lambda>j. case get_dataset d j of None \<Rightarrow> [] | Some r \<Rightarrow> [r])
       ((sources_round d ^^ length (dataset_source_table d)) [i]))"

text \<open>
  Inserting a dataset: the document is stored in its normalised form (the column is a
  JSON column), the new row is not archived, and the answer says that a row was added.
\<close>

definition insert_dataset ::
  "PostgresDb \<Rightarrow> dataset_doc \<Rightarrow> string \<Rightarrow> nat \<Rightarrow> error + (bool \<times> PostgresDb)" where
  "insert_dataset d metadata_document dataset_id dataset_type_id =
     (if contains_dataset d dataset_id
      then Inl (DuplicateRecordError dataset_id)
      else if get_dataset_type d dataset_type_id = None
      then Inl (IntegrityError dataset_id)
      else Inr (True, d\<lparr>dataset_table := dataset_table d @
         [\<lparr>dsr_id = dataset_id, dsr_dataset_type_ref = dataset_type_id,
           dsr_metadata = jsonify_dataset_doc metadata_document, dsr_archived = False\<rparr>]\<rparr>))"

text \<open>
  A dataset has one source per classifier, and one edge to any one source: a second edge
  under the same classifier, or to the same source, is a duplicate.
\<close>

definition insert_dataset_source ::
  "PostgresDb \<Rightarrow> string \<Rightarrow> string \<Rightarrow> string \<Rightarrow> error + PostgresDb" where
  "insert_dataset_source d classifier dataset_id source_dataset_id =
     (if \<not> contains_dataset d dataset_id \<or> \<not> contains_dataset d source_dataset_id
      then Inl (IntegrityError dataset_id)
      else if list_ex (\<lambda>e. dss_classifier e = classifier \<or> dss_source_dataset_ref e = source_dataset_id)
                (source_rows_of d dataset_id)
      then Inl (DuplicateRecordError dataset_id)
      else Inr (d\<lparr>dataset_source_table := dataset_source_table d @
         [\<lparr>dss_classifier = classifier, dss_dataset_ref = dataset_id,
           dss_source_dataset_ref = source_dataset_id\<rparr>]\<rparr>))"

definition ensure_dataset_location :: "PostgresDb \<Rightarrow> string \<Rightarrow> string \<Rightarrow> error + PostgresDb" where
  "ensure_dataset_location d dataset_id uri =
     (if \<not> contains_dataset d dataset_id
      then Inl (IntegrityError dataset_id)
      else if uri \<in> set (get_locations d dataset_id)
      then Inl (DuplicateRecordError dataset_id)
      else Inr (d\<lparr>dataset_location_table := dataset_location_table d @
         [\<lparr>dsl_dataset_ref = dataset_id, dsl_uri = uri\<rparr>]\<rparr>))"

text \<open>Archiving marks the row; a dataset that is not stored has no row to mark.\<close>

definition archive_storage_unit :: "PostgresDb \<Rightarrow> string \<Rightarrow> PostgresDb" where
  "archive_storage_unit d dataset_id =
     d\<lparr>dataset_table :=
         map (\<lambda>r. if dsr_id r = dataset_id then r\<lparr>dsr_archived := True\<rparr> else r) (dataset_table d)\<rparr>"

section \<open>The index: store, caches and timer\<close>

text \<open>
  Modelled from the spec: \<open>cachetools.TTLCache(100, 60)\<close> is a library class: at most
  100 entries, each live for 60 ticks of the timer after it was stored, the least recently
  used entry dropped on overflow. A cache is the list of its entries (key, result, expiry),
  the most recently used first.
\<close>

type_synonym ('k, 'v) TTLCache = "('k \<times> 'v \<times> nat) list"

definition cache_maxsize :: nat where
  "cache_maxsize = 100"

definition cache_ttl :: nat where
  "cache_ttl = 60"

definition cache_getitem :: "nat \<Rightarrow> ('k, 'v) TTLCache \<Rightarrow> 'k \<Rightarrow> 'v option" where
  "cache_getitem now c k =
     map_option (\<lambda>(k', v, expire). v) (find (\<lambda>(k', v, expire). k' = k \<and> now < expire) c)"

definition cache_touch :: "'k \<Rightarrow> ('k, 'v) TTLCache \<Rightarrow> ('k, 'v) TTLCache" where
  "cache_touch k c =
     filter (\<lambda>(k', v, expire). k' = k) c @ filter (\<lambda>(k', v, expire). k' \<noteq> k) c"

definition cache_setitem :: "nat \<Rightarrow> ('k, 'v) TTLCache \<Rightarrow> 'k \<Rightarrow> 'v \<Rightarrow> ('k, 'v) TTLCache" where
  "cache_setitem now c k v =
     take cache_maxsize
       ((k, v, now + cache_ttl) # filter (\<lambda>(k', v', expire). k' \<noteq> k \<and> now < expire) c)"

text \<open>
  The state the three resources share: the store, the cache of each of the four decorated
  methods, and the reading of the caches' timer.
\<close>

record index =
  db :: PostgresDb
  timer :: nat
  metadata_type_get_cache :: "(nat, MetadataType) TTLCache"
  metadata_type_get_by_name_cache :: "(string, MetadataType option) TTLCache"
  dataset_type_get_cache :: "(nat, DatasetType) TTLCache"
  dataset_type_get_by_name_cache :: "(string, DatasetType option) TTLCache"

text \<open>
  The decorator \<open>@cachetools.cached(cache)\<close>: a live entry for the argument is the
  answer, and the method does not run; otherwise the method runs and its result (whatever
  it is, \<open>None\<close> too) is stored. A call that raises stores nothing.
\<close>

definition cached ::
  "(index \<Rightarrow> ('k, 'v) TTLCache) \<Rightarrow> (('k, 'v) TTLCache \<Rightarrow> index \<Rightarrow> index) \<Rightarrow>
   (index \<Rightarrow> 'k \<Rightarrow> (error + 'v) \<times> index) \<Rightarrow> index \<Rightarrow> 'k \<Rightarrow> (error + 'v) \<times> index" where
  "cached rd wr f st k =
     (case cache_getitem (timer st) (rd st) k of
        Some v \<Rightarrow> (Inr v, wr (cache_touch k (rd st)) st)
      | None \<Rightarrow>
          (case f st k of
             (Inl e, st1) \<Rightarrow> (Inl e, st1)
           | (Inr v, st1) \<Rightarrow> (Inr v, wr (cache_setitem (timer st1) (rd st1) k v) st1)))"

text \<open>
  Modelled from the spec: the store's scoped transaction \<open>with self._db.begin()\<close>: the
  block's writes are kept when it ends normally and undone when it ends with an exception,
  which goes on to the caller. \<open>raised\<close> tells which outcomes of the block are
  exceptions. The caches are not part of the store.
\<close>

definition db_begin :: "('r \<Rightarrow> bool) \<Rightarrow> (index \<Rightarrow> 'r \<times> index) \<Rightarrow> index \<Rightarrow> 'r \<times> index" where
  "db_begin raised block st =
     (case block st of (r, st1) \<Rightarrow> if raised r then (r, st1\<lparr>db := db st\<rparr>) else (r, st1))"

section \<open>MetadataTypeResource\<close>

text \<open>
  Modelled from the spec: \<open>MetadataType.validate\<close> and \<open>DatasetType.validate\<close> belong to
  the model classes; a definition that fails its schema is an \<open>InvalidDocException\<close>. The
  schema here asks for what the index code reads: a string \<open>name\<close>, and a \<open>dataset\<close>
  section (a metadata type) or a \<open>metadata_type\<close> (a dataset type).
\<close>

definition MetadataType_validate :: "pyval \<Rightarrow> error + unit" where
  "MetadataType_validate definition_doc =
     (case (getitem definition_doc ''name'', getitem definition_doc ''dataset'') of
        (Inr (PStr n), Inr (PDict ds)) \<Rightarrow> Inr ()
      | _ \<Rightarrow> Inl (InvalidDocException ''metadata type''))"

definition DatasetType_validate :: "pyval \<Rightarrow> error + unit" where
  "DatasetType_validate definition_doc =
     (case (getitem definition_doc ''name'', getitem definition_doc ''metadata_type'') of
        (Inr (PStr n), Inr mt) \<Rightarrow> Inr ()
      | _ \<Rightarrow> Inl (InvalidDocException ''dataset type''))"

text \<open>\<open>definition['name']\<close>, a string after validation.\<close>

definition name_of :: "pyval \<Rightarrow> error + string" where
  "name_of definition_doc =
     (case getitem definition_doc ''name'' of
        Inl e \<Rightarrow> Inl e
      | Inr (PStr n) \<Rightarrow> Inr n
      | Inr _ \<Rightarrow> Inl (TypeError ''name''))"

text \<open>\<open>_make(query_row)\<close>: subscripting a row that is \<open>None\<close> is a TypeError.\<close>

definition MetadataTypeResource_make :: "metadata_type_row option \<Rightarrow> error + MetadataType" where
  "MetadataTypeResource_make query_row =
     (case query_row of
        None \<Rightarrow> Inl (TypeError ''definition'')
      | Some r \<Rightarrow>
          (case getitem (mtr_definition r) ''dataset'' of
             Inl e \<Rightarrow> Inl e
           | Inr dataset_section \<Rightarrow>
               Inr \<lparr>mt_name = mtr_name r, mt_dataset = dataset_section,
                    dataset_fields = get_dataset_fields r, mt_id = mtr_id r\<rparr>))"

definition MetadataTypeResource_get :: "index \<Rightarrow> nat \<Rightarrow> (error + MetadataType) \<times> index" where
  "MetadataTypeResource_get =
     cached metadata_type_get_cache (\<lambda>c. metadata_type_get_cache_update (\<lambda>_. c))
       (\<lambda>st i. (MetadataTypeResource_make (get_metadata_type (db st) i), st))"

definition MetadataTypeResource_get_by_name ::
  "index \<Rightarrow> string \<Rightarrow> (error + MetadataType option) \<times> index" where
  "MetadataTypeResource_get_by_name =
     cached metadata_type_get_by_name_cache (\<lambda>c. metadata_type_get_by_name_cache_update (\<lambda>_. c))
       (\<lambda>st n.
          (case get_metadata_type_by_name (db st) n of
             None \<Rightarrow> (Inr None, st)
           | Some record_row \<Rightarrow> (map_sum id Some (MetadataTypeResource_make (Some record_row)), st)))"

definition MetadataTypeResource_add ::
  "index \<Rightarrow> pyval \<Rightarrow> bool \<Rightarrow> (error + MetadataType option) \<times> index" where
  "MetadataTypeResource_add st definition_doc allow_table_lock =
     (case MetadataType_validate definition_doc of
        Inl e \<Rightarrow> (Inl e, st)
      | Inr _ \<Rightarrow>
          (case name_of definition_doc of
             Inl e \<Rightarrow> (Inl e, st)
           | Inr n \<Rightarrow>
               (case get_metadata_type_by_name (db st) n of
                  Some existing \<Rightarrow>
                    (case check_doc_unchanged (mtr_definition existing) definition_doc
                            (''Metadata Type '' @ n) of
                       Inl e \<Rightarrow> (Inl e, st)
                     | Inr _ \<Rightarrow> MetadataTypeResource_get_by_name st n)
                | None \<Rightarrow>
                    MetadataTypeResource_get_by_name
                      (st\<lparr>db := add_metadata_type (db st) n definition_doc (\<not> allow_table_lock)\<rparr>) n)))"

section \<open>DatasetTypeResource\<close>

definition DatasetTypeResource_make ::
  "index \<Rightarrow> dataset_type_row option \<Rightarrow> (error + DatasetType) \<times> index" where
  "DatasetTypeResource_make st query_row =
     (case query_row of
        None \<Rightarrow> (Inl (TypeError ''definition''), st)
      | Some r \<Rightarrow>
          (case MetadataTypeResource_get st (dtr_metadata_type_ref r) of
             (Inl e, st1) \<Rightarrow> (Inl e, st1)
           | (Inr mt, st1) \<Rightarrow>
               (Inr \<lparr>dt_metadata_type = mt, dt_definition = dtr_definition r, dt_id = dtr_id r\<rparr>,
                st1)))"

definition DatasetTypeResource_get :: "index \<Rightarrow> nat \<Rightarrow> (error + DatasetType) \<times> index" where
  "DatasetTypeResource_get =
     cached dataset_type_get_cache (\<lambda>c. dataset_type_get_cache_update (\<lambda>_. c))
       (\<lambda>st i. DatasetTypeResource_make st (get_dataset_type (db st) i))"

definition DatasetTypeResource_get_by_name ::
  "index \<Rightarrow> string \<Rightarrow> (error + DatasetType option) \<times> index" where
  "DatasetTypeResource_get_by_name =
     cached dataset_type_get_by_name_cache (\<lambda>c. dataset_type_get_by_name_cache_update (\<lambda>_. c))
       (\<lambda>st n.
          (case get_dataset_type_by_name (db st) n of
             None \<Rightarrow> (Inr None, st)
           | Some result_row \<Rightarrow>
               (case DatasetTypeResource_make st (Some result_row) of
                  (Inl e, st1) \<Rightarrow> (Inl e, st1)
                | (Inr t, st1) \<Rightarrow> (Inr (Some t), st1))))"

definition DatasetTypeResource_add ::
  "index \<Rightarrow> DatasetType \<Rightarrow> (error + DatasetType option) \<times> index" where
  "DatasetTypeResource_add st dtype =
     (case DatasetType_validate (dt_definition dtype) of
        Inl e \<Rightarrow> (Inl e, st)
      | Inr _ \<Rightarrow>
          (case get_dataset_type_by_name (db st) (dt_name dtype) of
             Some existing \<Rightarrow>
               (case check_doc_unchanged (dtr_definition existing) (dt_definition dtype)
                       (''Dataset type '' @ dt_name dtype) of
                  Inl e \<Rightarrow> (Inl e, st)
                | Inr _ \<Rightarrow> DatasetTypeResource_get_by_name st (dt_name dtype))
           | None \<Rightarrow>
               (case add_dataset_type (db st) (dt_name dtype) (dt_metadata dtype)
                       (mt_id (dt_metadata_type dtype)) (dt_definition dtype) of
                  Inl e \<Rightarrow> (Inl e, st)
                | Inr d \<Rightarrow> DatasetTypeResource_get_by_name (st\<lparr>db := d\<rparr>) (dt_name dtype))))"

section \<open>DatasetResource: get, has, add, replace\<close>

text \<open>
  \<open>_make(dataset_res)\<close>: reading an attribute of a result that is \<open>None\<close> is an
  AttributeError. The dataset is built from the row; it has no sources yet.
\<close>

definition DatasetResource_make :: "index \<Rightarrow> dataset_res option \<Rightarrow> (error + Dataset) \<times> index" where
  "DatasetResource_make st res =
     (case res of
        None \<Rightarrow> (Inl (AttributeError ''dataset_type_ref''), st)
      | Some r \<Rightarrow>
          (case DatasetTypeResource_get st (dataset_type_ref r) of
             (Inl e, st1) \<Rightarrow> (Inl e, st1)
           | (Inr t, st1) \<Rightarrow>
               (Inr (Dataset (res_id r) t (res_metadata r) (res_local_uri r) []), st1)))"

text \<open>\<open>get(id_)\<close> with \<open>include_sources\<close> false.\<close>

definition DatasetResource_get :: "index \<Rightarrow> string \<Rightarrow> (error + Dataset) \<times> index" where
  "DatasetResource_get st i = DatasetResource_make st (get_dataset (db st) i)"

text \<open>
  \<open>get(id_, include_sources=True)\<close> builds objects that refer to each other: the
  \<open>sources\<close> of a dataset are the objects of the table \<open>datasets\<close>, and its document's
  lineage section holds their documents. An object is named by its key in the table; a
  dataset object is the dataset as \<open>_make\<close> built it and, once the loop has come to it,
  the keys its lineage section and its \<open>sources\<close> refer to, by classifier.
\<close>

record dataset_object =
  made :: Dataset
  lineage_source_datasets :: "(string option \<times> string) list option"
  object_sources :: "(string option \<times> string) list option"

text \<open>
  Line 253: the dict comprehension that makes the table, one \<open>_make\<close> per row of the
  batch; a later row with the same id replaces the entry of the earlier one.
\<close>

fun make_datasets ::
  "index \<Rightarrow> dataset_res list \<Rightarrow> (string \<times> dataset_object \<times> dataset_res) list \<Rightarrow>
   (error + (string \<times> dataset_object \<times> dataset_res) list) \<times> index" where
  "make_datasets st [] datasets = (Inr datasets, st)"
| "make_datasets st (result_row # batch) datasets =
     (case DatasetResource_make st (Some result_row) of
        (Inl e, st1) \<Rightarrow> (Inl e, st1)
      | (Inr d, st1) \<Rightarrow>
          make_datasets st1 batch
            (AList.update (res_id result_row)
               (\<lparr>made = d, lineage_source_datasets = None, object_sources = None\<rparr>, result_row)
               datasets))"

text \<open>
  Lines 255-258 and 259-262: the dict comprehension over
  \<open>zip(result['sources'], result['classes']) if source\<close>. A source that is \<open>None\<close> or
  empty is left out; \<open>datasets[str(source)]\<close> is a KeyError when the table has no such
  key.
\<close>

fun sources_comprehension ::
  "string list \<Rightarrow> (string option \<times> string option) list \<Rightarrow> (string option \<times> string) list \<Rightarrow>
   error + (string option \<times> string) list" where
  "sources_comprehension keys [] acc = Inr acc"
| "sources_comprehension keys ((source, classifier) # rest) acc =
     (case source of
        None \<Rightarrow> sources_comprehension keys rest acc
      | Some s \<Rightarrow>
          if s = [] then sources_comprehension keys rest acc
          else if s \<in> set keys
          then sources_comprehension keys rest (AList.update classifier s acc)
          else Inl (KeyError s))"

text \<open>Lines 254-262: the loop over the values of the table.\<close>

fun resolve_sources ::
  "string list \<Rightarrow> (string \<times> dataset_object \<times> dataset_res) list \<Rightarrow>
   error + (string \<times> dataset_object \<times> dataset_res) list" where
  "resolve_sources keys [] = Inr []"
| "resolve_sources keys ((k, obj, result_row) # rest) =
     (case sources_comprehension keys (zip (res_sources result_row) (res_classes result_row)) [] of
        Inl e \<Rightarrow> Inl e
      | Inr refs \<Rightarrow>
          (case resolve_sources keys rest of
             Inl e \<Rightarrow> Inl e
           | Inr rest1 \<Rightarrow>
               Inr ((k, obj\<lparr>lineage_source_datasets := Some refs, object_sources := Some refs\<rparr>,
                     result_row) # rest1)))"

text \<open>
  Lines 253-263 on the batch the lineage query answered: the object of the requested id,
  and the table it lives in.
\<close>

definition reconstruct ::
  "index \<Rightarrow> dataset_res list \<Rightarrow> string \<Rightarrow>
   (error + dataset_object \<times> (string \<times> dataset_object) list) \<times> index" where
  "reconstruct st batch i =
     (case make_datasets st batch [] of
        (Inl e, st1) \<Rightarrow> (Inl e, st1)
      | (Inr datasets, st1) \<Rightarrow>
          (case resolve_sources (map fst datasets) datasets of
             Inl e \<Rightarrow> (Inl e, st1)
           | Inr resolved \<Rightarrow>
               (case map_of resolved i of
                  None \<Rightarrow> (Inl (KeyError i), st1)
                | Some (obj, result_row) \<Rightarrow>
                    (Inr (obj, map (\<lambda>(k, obj, result_row). (k, obj)) resolved), st1))))"

definition DatasetResource_get_include_sources ::
  "index \<Rightarrow> string \<Rightarrow> (error + dataset_object \<times> (string \<times> dataset_object) list) \<times> index" where
  "DatasetResource_get_include_sources st i = reconstruct st (get_dataset_sources (db st) i) i"

definition DatasetResource_has :: "index \<Rightarrow> Dataset \<Rightarrow> bool" where
  "DatasetResource_has st dataset = contains_dataset (db st) (ds_id dataset)"

subsection \<open>add\<close>

definition is_DuplicateRecordError :: "error \<Rightarrow> bool" where
  "is_DuplicateRecordError e = (case e of DuplicateRecordError m \<Rightarrow> True | _ \<Rightarrow> False)"

definition set_metadata_doc :: "Dataset \<Rightarrow> dataset_doc \<Rightarrow> Dataset" where
  "set_metadata_doc dataset m =
     Dataset (ds_id dataset) (ds_type dataset) m (local_uri dataset) (sources dataset)"

text \<open>Lines 297-298: one edge per item of \<open>dataset.sources\<close>, until one raises.\<close>

fun insert_dataset_sources ::
  "PostgresDb \<Rightarrow> string \<Rightarrow> (string \<times> Dataset) list \<Rightarrow> error option \<times> PostgresDb" where
  "insert_dataset_sources d dataset_id [] = (None, d)"
| "insert_dataset_sources d dataset_id ((classifier, source_dataset) # rest) =
     (case insert_dataset_source d classifier dataset_id (ds_id source_dataset) of
        Inl e \<Rightarrow> (Some e, d)
      | Inr d1 \<Rightarrow> insert_dataset_sources d1 dataset_id rest)"

text \<open>
  Lines 295-300, the \<open>try\<close> inside the transaction: the answer is the value of
  \<open>was_inserted\<close> after it, or the exception it lets through. A
  \<open>DuplicateRecordError\<close> of either statement is caught after both; \<open>was_inserted\<close> is
  assigned only when \<open>insert_dataset\<close> returns.
\<close>

definition insert_dataset_and_sources :: "Dataset \<Rightarrow> index \<Rightarrow> (error + bool) \<times> index" where
  "insert_dataset_and_sources dataset st =
     (case insert_dataset (db st) (metadata_doc dataset) (ds_id dataset) (dt_id (ds_type dataset)) of
        Inl e \<Rightarrow> if is_DuplicateRecordError e then (Inr False, st) else (Inl e, st)
      | Inr (was_inserted, d1) \<Rightarrow>
          (case insert_dataset_sources d1 (ds_id dataset) (sources dataset) of
             (None, d2) \<Rightarrow> (Inr was_inserted, st\<lparr>db := d2\<rparr>)
           | (Some e, d2) \<Rightarrow>
               if is_DuplicateRecordError e then (Inr was_inserted, st\<lparr>db := d2\<rparr>)
               else (Inl e, st\<lparr>db := d2\<rparr>)))"

text \<open>
  Lines 302-309: a dataset object is true, so \<open>if existing\<close> always holds once \<open>get\<close>
  has returned.
\<close>

definition check_existing :: "index \<Rightarrow> Dataset \<Rightarrow> (error + unit) \<times> index" where
  "check_existing st dataset =
     (case DatasetResource_get st (ds_id dataset) of
        (Inl e, st1) \<Rightarrow> (Inl e, st1)
      | (Inr existing, st1) \<Rightarrow>
          (check_doc_unchanged (metadata_doc existing) (jsonify_dataset_doc (metadata_doc dataset))
             (''Dataset '' @ ds_id dataset), st1))"

text \<open>
  Lines 289-311: the lineage section is taken out of the caller's document, the
  transaction and the check run on the stripped document, and the \<open>finally\<close> puts the
  section back. The second component is the caller's dataset after the block.
\<close>

definition index_stripped :: "index \<Rightarrow> Dataset \<Rightarrow> (error + unit) \<times> Dataset \<times> index" where
  "index_stripped st dataset =
     (let sources_tmp = source_datasets (metadata_doc dataset);
          stripped = set_metadata_doc dataset ((metadata_doc dataset)\<lparr>source_datasets := PDict []\<rparr>);
          (r, st2) =
            (case db_begin isl (insert_dataset_and_sources stripped) st of
               (Inl e, st1) \<Rightarrow> (Inl e, st1)
             | (Inr was_inserted, st1) \<Rightarrow>
                 if \<not> was_inserted then check_existing st1 stripped else (Inr (), st1));
          restored = set_metadata_doc stripped ((metadata_doc stripped)\<lparr>source_datasets := sources_tmp\<rparr>)
      in (r, restored, st2))"

text \<open>Lines 313-317: \<open>if dataset.local_uri\<close> fails for \<open>None\<close> and for the empty string.\<close>

definition ensure_location :: "index \<Rightarrow> Dataset \<Rightarrow> (error + unit) \<times> index" where
  "ensure_location st dataset =
     (case local_uri dataset of
        None \<Rightarrow> (Inr (), st)
      | Some uri \<Rightarrow>
          if uri = [] then (Inr (), st)
          else (case ensure_dataset_location (db st) (ds_id dataset) uri of
                  Inl e \<Rightarrow> if is_DuplicateRecordError e then (Inr (), st) else (Inl e, st)
                | Inr d \<Rightarrow> (Inr (), st\<lparr>db := d\<rparr>)))"

text \<open>Lines 289-319: \<open>add\<close> after its loop over the sources.\<close>

definition add_dataset :: "index \<Rightarrow> Dataset \<Rightarrow> (error + Dataset) \<times> Dataset \<times> index" where
  "add_dataset st dataset =
     (case index_stripped st dataset of
        (Inl e, dataset1, st1) \<Rightarrow> (Inl e, dataset1, st1)
      | (Inr _, dataset1, st1) \<Rightarrow>
          (case ensure_location st1 dataset1 of
             (Inl e, st2) \<Rightarrow> (Inl e, dataset1, st2)
           | (Inr _, st2) \<Rightarrow> (Inr dataset1, dataset1, st2)))"

text \<open>
  \<open>add(dataset, skip_sources)\<close>. The answer is what the call returns or raises, the
  caller's dataset object after the call, and the index after the call. \<open>add_sources\<close> is
  the loop of lines 285-287 over \<open>dataset.sources.values()\<close>; it answers the exception
  that ended it, if one did.
\<close>

fun DatasetResource_add :: "index \<Rightarrow> Dataset \<Rightarrow> bool \<Rightarrow> (error + Dataset) \<times> Dataset \<times> index"
  and add_sources ::
    "index \<Rightarrow> (string \<times> Dataset) list \<Rightarrow> error option \<times> (string \<times> Dataset) list \<times> index" where
  "DatasetResource_add st (Dataset i t m u srcs) skip_sources =
     (if skip_sources then add_dataset st (Dataset i t m u srcs)
      else (case add_sources st srcs of
              (Some e, srcs1, st1) \<Rightarrow> (Inl e, Dataset i t m u srcs1, st1)
            | (None, srcs1, st1) \<Rightarrow> add_dataset st1 (Dataset i t m u srcs1)))"
| "add_sources st [] = (None, [], st)"
| "add_sources st ((classifier, source) # rest) =
     (case DatasetResource_add st source False of
        (Inl e, source1, st1) \<Rightarrow> (Some e, (classifier, source1) # rest, st1)
      | (Inr _, source1, st1) \<Rightarrow>
          (case add_sources st1 rest of
             (r, rest1, st2) \<Rightarrow> (r, (classifier, source1) # rest1, st2)))"

subsection \<open>replace\<close>

text \<open>Lines 327-328 and 330-332, the two loops of the transaction's block.\<close>

definition archive_all :: "Dataset list \<Rightarrow> PostgresDb \<Rightarrow> PostgresDb" where
  "archive_all old_datasets d = fold (\<lambda>unit d1. archive_storage_unit d1 (ds_id unit)) old_datasets d"

fun add_all :: "index \<Rightarrow> Dataset list \<Rightarrow> error option \<times> Dataset list \<times> index" where
  "add_all st [] = (None, [], st)"
| "add_all st (unit # rest) =
     (case DatasetResource_add st unit False of
        (Inl e, unit1, st1) \<Rightarrow> (Some e, unit1 # rest, st1)
      | (Inr _, unit1, st1) \<Rightarrow>
          (case add_all st1 rest of (r, rest1, st2) \<Rightarrow> (r, unit1 # rest1, st2)))"

text \<open>
  \<open>replace(old_datasets, new_datasets)\<close>: the exception it raises, if any, the caller's
  new datasets after the call, and the index after the call.
\<close>

definition DatasetResource_replace ::
  "index \<Rightarrow> Dataset list \<Rightarrow> Dataset list \<Rightarrow> (error option \<times> Dataset list) \<times> index" where
  "DatasetResource_replace st old_datasets new_datasets =
     db_begin (\<lambda>(r, new1). r \<noteq> None)
       (\<lambda>st0. case add_all (st0\<lparr>db := archive_all old_datasets (db st0)\<rparr>) new_datasets of
                 (r, new1, st1) \<Rightarrow> ((r, new1), st1))
       st"

section \<open>DatasetResource: search and count\<close>

text \<open>
  A query maps field names to a string, a number or a range. The query mappings live in a
  heap, an object by its address, so that a copy and the mapping it was copied from are
  two objects: \<open>q = dict(query)\<close> allocates a new one.
\<close>

datatype qvalue = QStr string | QNum int | QRange int int

type_synonym query = "(string \<times> qvalue) list"

type_synonym heap = "query list"

datatype expression = EqualsExpression field qvalue | BetweenExpression field int int

text \<open>
  Modelled from the spec: the field expression compiler \<open>fields.to_expressions\<close> is not
  among the sources. Every key of the query must be a field of the registry; a range
  compiles to a between-expression, any other value to an equality.
\<close>

definition to_expression :: "field \<Rightarrow> qvalue \<Rightarrow> expression" where
  "to_expression f v =
     (case v of QRange lo hi \<Rightarrow> BetweenExpression f lo hi | _ \<Rightarrow> EqualsExpression f v)"

fun to_expressions :: "(string \<Rightarrow> field option) \<Rightarrow> query \<Rightarrow> error + expression list" where
  "to_expressions get_field [] = Inr []"
| "to_expressions get_field ((n, v) # rest) =
     (case get_field n of
        None \<Rightarrow> Inl (UnknownFieldError n)
      | Some f \<Rightarrow>
          (case to_expressions get_field rest of
             Inl e \<Rightarrow> Inl e
           | Inr exprs \<Rightarrow> Inr (to_expression f v # exprs)))"

text \<open>
  Modelled from the spec: how the store evaluates expressions. A field reads a column or
  follows its path into the document body; a dataset matches when every expression holds
  of it; archived datasets are left out of a search.
\<close>

fun get_path :: "pyval \<Rightarrow> string list \<Rightarrow> pyval option" where
  "get_path v [] = Some v"
| "get_path v (k # ks) = (case getitem v k of Inl e \<Rightarrow> None | Inr w \<Rightarrow> get_path w ks)"

definition field_of_row :: "dataset_row \<Rightarrow> field \<Rightarrow> pyval option" where
  "field_of_row r f =
     (case f of
        IdField \<Rightarrow> Some (PStr (dsr_id r))
      | DatasetTypeIdField \<Rightarrow> Some (PInt (int (dsr_dataset_type_ref r)))
      | SimpleDocField path \<Rightarrow> get_path (doc_body (dsr_metadata r)) path)"

definition holds :: "dataset_row \<Rightarrow> expression \<Rightarrow> bool" where
  "holds r expr =
     (case expr of
        EqualsExpression f v \<Rightarrow>
          (case v of
             QStr s \<Rightarrow> field_of_row r f = Some (PStr s)
           | QNum n \<Rightarrow> field_of_row r f = Some (PInt n)
           | QRange lo hi \<Rightarrow> False)
      | BetweenExpression f lo hi \<Rightarrow>
          (case field_of_row r f of Some (PInt x) \<Rightarrow> lo \<le> x \<and> x \<le> hi | _ \<Rightarrow> False))"

definition selected :: "expression list \<Rightarrow> dataset_row \<Rightarrow> bool" where
  "selected exprs r = (\<not> dsr_archived r \<and> list_all (holds r) exprs)"

record search_result =
  sr_dataset :: dataset_res
  sr_fields :: "pyval option list option"

definition search_datasets ::
  "PostgresDb \<Rightarrow> expression list \<Rightarrow> field list option \<Rightarrow> bool \<Rightarrow> search_result list" where
  "search_datasets d exprs select_fields with_source_ids =
     map (\<lambda>r. \<lparr>sr_dataset = to_dataset_res d r,
               sr_fields = map_option (map (field_of_row r)) select_fields\<rparr>)
       (filter (selected exprs) (dataset_table d))"

definition count_datasets :: "PostgresDb \<Rightarrow> expression list \<Rightarrow> nat" where
  "count_datasets d exprs =
     sum_list (map (\<lambda>r. if selected exprs r then 1 else 0) (dataset_table d))"

subsection \<open>The candidate dataset types\<close>

text \<open>
  What \<open>_get_dataset_types\<close> returns: a set with the one type \<open>get_by_name\<close> answered
  (\<open>None\<close> when there is no such product), or the generator object of
  \<open>get_with_fields(tuple(q.keys()))\<close>, which has not run yet. The truth of a set is that
  it has an element; a generator object is always true.
\<close>

datatype dataset_types = TypeSet "DatasetType option list" | TypeGenerator "string list"

definition truth_of :: "dataset_types \<Rightarrow> bool" where
  "truth_of types = (case types of TypeSet ts \<Rightarrow> ts \<noteq> [] | TypeGenerator field_names \<Rightarrow> True)"

text \<open>
  \<open>_get_dataset_types(q)\<close>. A product that is not a string is no name the store can
  compare with: the lookup is refused.
\<close>

definition get_dataset_types :: "index \<Rightarrow> query \<Rightarrow> (error + dataset_types) \<times> index" where
  "get_dataset_types st q =
     (if ''product'' \<in> set (map fst q)
      then (case map_of q ''product'' of
              Some (QStr n) \<Rightarrow>
                (case DatasetTypeResource_get_by_name st n of
                   (Inl e, st1) \<Rightarrow> (Inl e, st1)
                 | (Inr t, st1) \<Rightarrow> (Inr (TypeSet [t]), st1))
            | _ \<Rightarrow> (Inl (TypeError ''product''), st))
      else (let types = TypeGenerator (map fst q)
            in if \<not> truth_of types
               then (Inl (ValueError ''No type of dataset has fields''), st)
               else (Inr types, st)))"

text \<open>
  Iterating over the candidate types. The elements of the set are there already; the
  generator makes one dataset type per row of \<open>get_all_dataset_types\<close> when the loop asks
  for the next one, and yields it if its metadata type has all the field names
  (\<open>get_with_fields\<close>, lines 203-208, over \<open>get_all\<close>, line 214).
\<close>

datatype pending = Element "DatasetType option" | Record dataset_type_row "string list"

definition iterate :: "PostgresDb \<Rightarrow> dataset_types \<Rightarrow> pending list" where
  "iterate d types =
     (case types of
        TypeSet ts \<Rightarrow> map Element ts
      | TypeGenerator field_names \<Rightarrow> map (\<lambda>r. Record r field_names) (get_all_dataset_types d))"

text \<open>The next step of the iteration: an element for the loop, or nothing for this row.\<close>

definition advance :: "index \<Rightarrow> pending \<Rightarrow> (error + DatasetType option option) \<times> index" where
  "advance st p =
     (case p of
        Element t \<Rightarrow> (Inr (Some t), st)
      | Record r field_names \<Rightarrow>
          (case DatasetTypeResource_make st (Some r) of
             (Inl e, st1) \<Rightarrow> (Inl e, st1)
           | (Inr t, st1) \<Rightarrow>
               if list_all (\<lambda>n. map_of (dataset_fields (dt_metadata_type t)) n \<noteq> None) field_names
               then (Inr (Some (Some t)), st1)
               else (Inr None, st1)))"

subsection \<open>The loops of \<open>_do_search\<close> and \<open>_do_count\<close>\<close>

text \<open>
  Lines 420-422 and 441-443: the pin is written into the mapping \<open>q\<close> refers to, and the
  mapping is compiled with the type's registry. Reading \<open>id\<close> of \<open>None\<close> is an
  AttributeError.
\<close>

definition pin_and_compile ::
  "heap \<Rightarrow> nat \<Rightarrow> DatasetType option \<Rightarrow> (error + DatasetType \<times> expression list) \<times> heap" where
  "pin_and_compile h q dataset_type =
     (case dataset_type of
        None \<Rightarrow> (Inl (AttributeError ''id''), h)
      | Some t \<Rightarrow>
          (let h1 = h[q := AList.update ''dataset_type_id'' (QNum (int (dt_id t))) (h ! q)]
           in case to_expressions (map_of (dataset_fields (dt_metadata_type t))) (h1 ! q) of
                Inl e \<Rightarrow> (Inl e, h1)
              | Inr query_exprs \<Rightarrow> (Inr (t, query_exprs), h1)))"

text \<open>
  A generator runs in turns with its consumer: \<open>consume\<close> is what the consumer does with
  an item before it asks for the next one.
\<close>

fun yield_all ::
  "(index \<Rightarrow> 'a \<Rightarrow> (error + 'b) \<times> index) \<Rightarrow> index \<Rightarrow> 'a list \<Rightarrow> (error + 'b list) \<times> index" where
  "yield_all consume st [] = (Inr [], st)"
| "yield_all consume st (x # xs) =
     (case consume st x of
        (Inl e, st1) \<Rightarrow> (Inl e, st1)
      | (Inr y, st1) \<Rightarrow>
          (case yield_all consume st1 xs of
             (Inl e, st2) \<Rightarrow> (Inl e, st2)
           | (Inr ys, st2) \<Rightarrow> (Inr (y # ys), st2)))"

text \<open>Lines 419-429: the loop of \<open>_do_search\<close>; the answer is everything it yielded.\<close>

fun search_loop ::
  "(index \<Rightarrow> search_result \<Rightarrow> (error + 'b) \<times> index) \<Rightarrow> bool \<Rightarrow> bool \<Rightarrow> nat \<Rightarrow> pending list \<Rightarrow>
   heap \<Rightarrow> index \<Rightarrow> (error + 'b list) \<times> heap \<times> index" where
  "search_loop consume return_fields with_source_ids q [] h st = (Inr [], h, st)"
| "search_loop consume return_fields with_source_ids q (p # ps) h st =
     (case advance st p of
        (Inl e, st1) \<Rightarrow> (Inl e, h, st1)
      | (Inr None, st1) \<Rightarrow> search_loop consume return_fields with_source_ids q ps h st1
      | (Inr (Some dataset_type), st1) \<Rightarrow>
          (case pin_and_compile h q dataset_type of
             (Inl e, h1) \<Rightarrow> (Inl e, h1, st1)
           | (Inr (t, query_exprs), h1) \<Rightarrow>
               (case yield_all consume st1
                       (search_datasets (db st1) query_exprs
                          (if return_fields
                           then Some (map snd (dataset_fields (dt_metadata_type t))) else None)
                          with_source_ids) of
                  (Inl e, st2) \<Rightarrow> (Inl e, h1, st2)
                | (Inr items, st2) \<Rightarrow>
                    (case search_loop consume return_fields with_source_ids q ps h1 st2 of
                       (Inl e, h2, st3) \<Rightarrow> (Inl e, h2, st3)
                     | (Inr later, h2, st3) \<Rightarrow> (Inr (items @ later), h2, st3)))))"

text \<open>Lines 440-445: the loop of \<open>_do_count\<close> with its running \<open>result\<close>.\<close>

fun count_loop :: "nat \<Rightarrow> pending list \<Rightarrow> nat \<Rightarrow> heap \<Rightarrow> index \<Rightarrow> (error + nat) \<times> heap \<times> index" where
  "count_loop q [] result h st = (Inr result, h, st)"
| "count_loop q (p # ps) result h st =
     (case advance st p of
        (Inl e, st1) \<Rightarrow> (Inl e, h, st1)
      | (Inr None, st1) \<Rightarrow> count_loop q ps result h st1
      | (Inr (Some dataset_type), st1) \<Rightarrow>
          (case pin_and_compile h q dataset_type of
             (Inl e, h1) \<Rightarrow> (Inl e, h1, st1)
           | (Inr (t, query_exprs), h1) \<Rightarrow>
               count_loop q ps (result + count_datasets (db st1) query_exprs) h1 st1))"

text \<open>
  Lines 411-416 and 432-438: \<open>q = dict(query)\<close> is a new object at the end of the heap
  with the items of \<open>query\<close>; the candidate types are resolved from it, and then the
  product key is taken out of it.
\<close>

definition copy_query :: "heap \<Rightarrow> nat \<Rightarrow> nat \<times> heap" where
  "copy_query h query_ref = (length h, h @ [h ! query_ref])"

definition del_product :: "heap \<Rightarrow> nat \<Rightarrow> heap" where
  "del_product h q =
     (if ''product'' \<in> set (map fst (h ! q)) then h[q := AList.delete ''product'' (h ! q)] else h)"

definition do_search ::
  "(index \<Rightarrow> search_result \<Rightarrow> (error + 'b) \<times> index) \<Rightarrow> index \<Rightarrow> heap \<Rightarrow> nat \<Rightarrow> bool \<Rightarrow> bool \<Rightarrow>
   (error + 'b list) \<times> heap \<times> index" where
  "do_search consume st h query_ref return_fields with_source_ids =
     (case copy_query h query_ref of
        (q, h1) \<Rightarrow>
          (case get_dataset_types st (h1 ! q) of
             (Inl e, st1) \<Rightarrow> (Inl e, h1, st1)
           | (Inr dataset_types, st1) \<Rightarrow>
               search_loop consume return_fields with_source_ids q
                 (iterate (db st1) dataset_types) (del_product h1 q) st1))"

definition do_count :: "index \<Rightarrow> heap \<Rightarrow> nat \<Rightarrow> (error + nat) \<times> heap \<times> index" where
  "do_count st h query_ref =
     (case copy_query h query_ref of
        (q, h1) \<Rightarrow>
          (case get_dataset_types st (h1 ! q) of
             (Inl e, st1) \<Rightarrow> (Inl e, h1, st1)
           | (Inr dataset_types, st1) \<Rightarrow>
               count_loop q (iterate (db st1) dataset_types) 0 (del_product h1 q) st1))"

subsection \<open>The public operations\<close>

text \<open>
  \<open>search\<close> is \<open>_make_many\<close> over \<open>_do_search\<close>: each row is made into a dataset as it
  is yielded; the answer here is the list of all of them, which is \<open>search_eager\<close>.
  \<open>search_summaries\<close> takes the selected fields of each row as they are.
\<close>

definition DatasetResource_search :: "index \<Rightarrow> heap \<Rightarrow> nat \<Rightarrow> (error + Dataset list) \<times> heap \<times> index" where
  "DatasetResource_search st h query_ref =
     do_search (\<lambda>st1 row. DatasetResource_make st1 (Some (sr_dataset row))) st h query_ref False False"

definition DatasetResource_search_eager ::
  "index \<Rightarrow> heap \<Rightarrow> nat \<Rightarrow> (error + Dataset list) \<times> heap \<times> index" where
  "DatasetResource_search_eager st h query_ref = DatasetResource_search st h query_ref"

definition DatasetResource_count :: "index \<Rightarrow> heap \<Rightarrow> nat \<Rightarrow> (error + nat) \<times> heap \<times> index" where
  "DatasetResource_count st h query_ref = do_count st h query_ref"

definition DatasetResource_search_summaries ::
  "index \<Rightarrow> heap \<Rightarrow> nat \<Rightarrow> (error + pyval option list option list) \<times> heap \<times> index" where
  "DatasetResource_search_summaries st h query_ref =
     do_search (\<lambda>st1 row. (Inr (sr_fields row), st1)) st h query_ref True False"

section \<open>Example stores\<close>

text \<open>
  A store with the metadata type \<open>eo\<close>, whose one search field is \<open>time\<close>, and the
  product \<open>ls5\<close> of that type; an index over a store, with the timer at 0 and nothing
  cached.
\<close>

definition eo_definition :: pyval where
  "eo_definition =
     PDict [(''name'', PStr ''eo''),
            (''dataset'', PDict [(''search_fields'',
               PDict [(''time'', PDict [(''offset'', PList [PStr ''time''])])])])]"

definition ls5_definition :: pyval where
  "ls5_definition =
     PDict [(''name'', PStr ''ls5''), (''metadata_type'', PStr ''eo''), (''metadata'', PDict [])]"

definition empty_db :: PostgresDb where
  "empty_db =
     \<lparr>metadata_type_table = [], dataset_type_table = [], dataset_table = [],
      dataset_source_table = [], dataset_location_table = []\<rparr>"

definition new_index :: "PostgresDb \<Rightarrow> index" where
  "new_index d =
     \<lparr>db = d, timer = 0, metadata_type_get_cache = [], metadata_type_get_by_name_cache = [],
      dataset_type_get_cache = [], dataset_type_get_by_name_cache = []\<rparr>"

definition ls5_db :: PostgresDb where
  "ls5_db =
     empty_db\<lparr>metadata_type_table := [\<lparr>mtr_id = 1, mtr_name = ''eo'', mtr_definition = eo_definition\<rparr>],
              dataset_type_table := [\<lparr>dtr_id = 1, dtr_name = ''ls5'', dtr_metadata = PDict [],
                                     dtr_metadata_type_ref = 1, dtr_definition = ls5_definition\<rparr>]\<rparr>"

text \<open>
  The same metadata type and product as the model classes hold them, and the store with
  the metadata type alone.
\<close>

definition eo_type :: MetadataType where
  "eo_type =
     \<lparr>mt_name = ''eo'',
      mt_dataset = PDict [(''search_fields'',
               PDict [(''time'', PDict [(''offset'', PList [PStr ''time''])])])],
      dataset_fields = [(''id'', IdField), (''dataset_type_id'', DatasetTypeIdField),
                        (''time'', SimpleDocField [''time''])],
      mt_id = 1\<rparr>"

definition ls5_type :: DatasetType where
  "ls5_type = \<lparr>dt_metadata_type = eo_type, dt_definition = ls5_definition, dt_id = 1\<rparr>"

definition eo_db :: PostgresDb where
  "eo_db = empty_db\<lparr>metadata_type_table := [\<lparr>mtr_id = 1, mtr_name = ''eo'', mtr_definition = eo_definition\<rparr>]\<rparr>"

text \<open>
  Two rows of a lineage batch: \<open>a\<close> with the one source \<open>b\<close> under the classifier
  \<open>raw\<close>, and \<open>b\<close> without sources.
\<close>

definition row_a :: dataset_res where
  "row_a = \<lparr>res_id = ''a'', dataset_type_ref = 1,
            res_metadata = \<lparr>doc_body = PDict [], source_datasets = PDict []\<rparr>,
            res_local_uri = None, res_sources = [Some ''b''], res_classes = [Some ''raw'']\<rparr>"

definition row_b :: dataset_res where
  "row_b = \<lparr>res_id = ''b'', dataset_type_ref = 1,
            res_metadata = \<lparr>doc_body = PDict [], source_datasets = PDict []\<rparr>,
            res_local_uri = None, res_sources = [None], res_classes = [None]\<rparr>"

text \<open>
  A store that holds the datasets \<open>s\<close> and \<open>t\<close> of product \<open>ls5\<close>, and a dataset \<open>d\<close>
  that names \<open>s\<close> under two classifiers and \<open>t\<close> under a third.
\<close>

definition plain_doc :: dataset_doc where
  "plain_doc = \<lparr>doc_body = PDict [(''time'', PInt 5)], source_datasets = PDict []\<rparr>"

definition dataset_s :: Dataset where
  "dataset_s = Dataset ''s'' ls5_type plain_doc None []"

definition dataset_t :: Dataset where
  "dataset_t = Dataset ''t'' ls5_type plain_doc None []"

definition dataset_d :: Dataset where
  "dataset_d = Dataset ''d'' ls5_type plain_doc None
                 [(''a'', dataset_s), (''b'', dataset_s), (''c'', dataset_t)]"

definition stored_row :: "string \<Rightarrow> dataset_row" where
  "stored_row i = \<lparr>dsr_id = i, dsr_dataset_type_ref = 1, dsr_metadata = plain_doc, dsr_archived = False\<rparr>"

definition sources_db :: PostgresDb where
  "sources_db = ls5_db\<lparr>dataset_table := [stored_row ''s'', stored_row ''t'']\<rparr>"

text \<open>
  A dataset \<open>e\<close> with a date in its document, a lineage section, a location and the
  stored dataset \<open>s\<close> as its source; and another document for the same dataset.
\<close>

definition dataset_e :: Dataset where
  "dataset_e =
     Dataset ''e'' ls5_type
       \<lparr>doc_body = PDict [(''time'', PDate ''2016-01-01'')],
        source_datasets = PDict [(''raw'', PDict [(''time'', PInt 5)])]\<rparr>
       (Some ''file:///e'') [(''raw'', dataset_s)]"

definition other_doc :: dataset_doc where
  "other_doc =
     \<lparr>doc_body = PDict [(''time'', PDate ''2017-01-01'')],
      source_datasets = PDict [(''raw'', PDict [(''time'', PInt 5)])]\<rparr>"

section \<open>Evaluation\<close>

lemmas type_read_defs =
  DatasetResource_make_def DatasetTypeResource_get_def DatasetTypeResource_make_def
  MetadataTypeResource_get_def MetadataTypeResource_make_def cached_def cache_getitem_def
  cache_setitem_def cache_touch_def cache_ttl_def cache_maxsize_def
  get_dataset_type_def get_metadata_type_def get_dataset_fields_def offset_of_def getitem_def

lemmas example_defs = new_index_def ls5_db_def empty_db_def eo_definition_def ls5_definition_def
  row_a_def row_b_def eo_type_def ls5_type_def eo_db_def

lemmas dataset_defs = plain_doc_def dataset_s_def dataset_t_def dataset_d_def stored_row_def
  sources_db_def

lemmas store_defs = insert_dataset_def insert_dataset_source_def contains_dataset_def
  get_dataset_row_def source_rows_of_def jsonify_dataset_doc_def get_dataset_type_def

lemmas add_defs = add_dataset_def index_stripped_def db_begin_def insert_dataset_and_sources_def
  check_existing_def DatasetResource_get_def get_dataset_def to_dataset_res_def get_locations_def
  ensure_location_def ensure_dataset_location_def check_doc_unchanged_def
  is_DuplicateRecordError_def set_metadata_doc_def Let_def

section \<open>Source ids that the batch does not hold\<close>

text \<open>
  The source ids of a row that are neither null nor empty and are no key of the table, in
  the order of the row's array; and those of all rows of a batch, against the ids of the
  batch.
\<close>

definition absent_sources :: "string list \<Rightarrow> dataset_res \<Rightarrow> string list" where
  "absent_sources keys result_row =
     concat (map (\<lambda>(source, classifier).
                    case source of
                      None \<Rightarrow> []
                    | Some s \<Rightarrow> if s \<noteq> [] \<and> s \<notin> set keys then [s] else [])
             (zip (res_sources result_row) (res_classes result_row)))"

definition absent_from_batch :: "dataset_res list \<Rightarrow> string list" where
  "absent_from_batch batch = concat (map (absent_sources (map res_id batch)) batch)"

section \<open>The stored record of a dataset type\<close>


section \<open>What \<open>add\<close> writes\<close>


definition stripped_doc :: "Dataset \<Rightarrow> dataset_doc" where
  "stripped_doc dataset = (metadata_doc dataset)\<lparr>source_datasets := PDict []\<rparr>"

section \<open>The store's constraints, and growth of the store\<close>

text \<open>
  A store is in order when the definition of every metadata type has a \<open>dataset\<close>
  section, every dataset type names a registered metadata type, every dataset names a
  registered dataset type, and no two datasets have the same id. A store extends another when the type tables are the same,
  the other three tables have grown at the end, and order is kept. \<open>all_sources\<close>
  lists the datasets reachable through \<open>sources\<close>, the sources of a dataset before the
  dataset; a dataset is indexed when its row holds the normalised stripped document and
  its location, if it has one, is registered.
\<close>

definition types_ok :: "PostgresDb \<Rightarrow> bool" where
  "types_ok d =
     (list_all (\<lambda>m. \<not> isl (getitem (mtr_definition m) ''dataset'')) (metadata_type_table d) \<and>
      list_all (\<lambda>t. get_metadata_type d (dtr_metadata_type_ref t) \<noteq> None) (dataset_type_table d))"

definition store_ok :: "PostgresDb \<Rightarrow> bool" where
  "store_ok d =
     (types_ok d \<and>
      list_all (\<lambda>r. get_dataset_type d (dsr_dataset_type_ref r) \<noteq> None) (dataset_table d) \<and>
      distinct (map dsr_id (dataset_table d)))"

definition extends :: "PostgresDb \<Rightarrow> PostgresDb \<Rightarrow> bool" where
  "extends d d' =
     (metadata_type_table d' = metadata_type_table d \<and>
      dataset_type_table d' = dataset_type_table d \<and>
      prefix (dataset_table d) (dataset_table d') \<and>
      prefix (dataset_source_table d) (dataset_source_table d') \<and>
      prefix (dataset_location_table d) (dataset_location_table d') \<and>
      (store_ok d \<longrightarrow> store_ok d'))"

fun all_sources :: "Dataset \<Rightarrow> Dataset list" where
  "all_sources (Dataset i t m u srcs) = concat (map (\<lambda>(c, s). all_sources s @ [s]) srcs)"

definition indexed :: "PostgresDb \<Rightarrow> Dataset \<Rightarrow> bool" where
  "indexed d dataset =
     ((case get_dataset_row d (ds_id dataset) of
         None \<Rightarrow> False
       | Some r \<Rightarrow> dsr_metadata r = jsonify_dataset_doc (stripped_doc dataset)) \<and>
      (case local_uri dataset of
         None \<Rightarrow> True
       | Some uri \<Rightarrow> uri = [] \<or> uri \<in> set (get_locations d (ds_id dataset))))"

section \<open>What the store says about a type\<close>

text \<open>
  Reading a metadata type or a dataset type from the store, without the caches: what the
  undecorated \<open>get\<close> methods compute. The caches of the two \<open>get\<close> methods are in order
  when every entry is what the store says about its id. The step of the iteration over
  the candidate types, read from the store.
\<close>

definition read_metadata_type :: "PostgresDb \<Rightarrow> nat \<Rightarrow> error + MetadataType" where
  "read_metadata_type d i = MetadataTypeResource_make (get_metadata_type d i)"

definition read_dataset_type_row :: "PostgresDb \<Rightarrow> dataset_type_row \<Rightarrow> error + DatasetType" where
  "read_dataset_type_row d r =
     (case read_metadata_type d (dtr_metadata_type_ref r) of
        Inl e \<Rightarrow> Inl e
      | Inr mt \<Rightarrow>
          Inr \<lparr>dt_metadata_type = mt, dt_definition = dtr_definition r, dt_id = dtr_id r\<rparr>)"

definition read_dataset_type :: "PostgresDb \<Rightarrow> nat \<Rightarrow> error + DatasetType" where
  "read_dataset_type d i =
     (case get_dataset_type d i of
        None \<Rightarrow> Inl (TypeError ''definition'')
      | Some r \<Rightarrow> read_dataset_type_row d r)"

definition caches_ok :: "index \<Rightarrow> bool" where
  "caches_ok st =
     (list_all (\<lambda>(k, v, expire). read_metadata_type (db st) k = Inr v) (metadata_type_get_cache st) \<and>
      list_all (\<lambda>(k, v, expire). read_dataset_type (db st) k = Inr v) (dataset_type_get_cache st))"

definition read_pending :: "PostgresDb \<Rightarrow> pending \<Rightarrow> error + DatasetType option option" where
  "read_pending d p =
     (case p of
        Element t \<Rightarrow> Inr (Some t)
      | Record r field_names \<Rightarrow>
          (case read_dataset_type_row d r of
             Inl e \<Rightarrow> Inl e
           | Inr t \<Rightarrow>
               if list_all (\<lambda>n. map_of (dataset_fields (dt_metadata_type t)) n \<noteq> None) field_names
               then Inr (Some (Some t))
               else Inr None))"

section \<open>A consistent index\<close>

text \<open>
  The hypotheses of the properties of \<open>add\<close>, \<open>search\<close> and \<open>count\<close> below: the store keeps
  its constraints, and every live cache entry is what the store says. The last section shows that
  a new index over an empty store starts so, and that every operation of the three resources
  keeps it so.
\<close>

definition index_ok :: "index \<Rightarrow> bool" where
  "index_ok st = (store_ok (db st) \<and> caches_ok st)"


section \<open>Lemmas: the caller's dataset\<close>

lemma index_stripped_restores: "fst (snd (index_stripped st d)) = d"
  by (cases d) (simp add: index_stripped_def set_metadata_doc_def Let_def split: prod.splits)

lemma add_dataset_restores:
  "add_dataset st d = (r, d1, st1) \<Longrightarrow> d1 = d \<and> (\<forall>x. r = Inr x \<longrightarrow> x = d)"
  using index_stripped_restores [of st d]
  by (auto simp: add_dataset_def split: prod.splits sum.splits)

lemma add_restores_mutual:
  "(\<forall>r d1 st1. DatasetResource_add st d skip = (r, d1, st1) \<longrightarrow> d1 = d \<and> (\<forall>x. r = Inr x \<longrightarrow> x = d))"
  "(\<forall>r s1 st1. add_sources st srcs = (r, s1, st1) \<longrightarrow> s1 = srcs)"
proof (induction st d skip and st srcs rule: DatasetResource_add_add_sources.induct)
  case (1 st i t m u srcs skip_sources)
  then show ?case
    by (auto split: prod.splits option.splits dest: add_dataset_restores)
next
  case (2 st)
  then show ?case by simp
next
  case (3 st classifier source rest)
  then show ?case
    by (auto split: prod.splits sum.splits)
qed

lemma add_restores:
  "DatasetResource_add st d skip = (r, d1, st1) \<Longrightarrow> d1 = d"
  using add_restores_mutual(1) by blast

lemma add_returns_argument:
  "DatasetResource_add st d skip = (Inr x, d1, st1) \<Longrightarrow> x = d"
  using add_restores_mutual(1) by blast

lemma add_sources_restores:
  "add_sources st srcs = (r, s1, st1) \<Longrightarrow> s1 = srcs"
  using add_restores_mutual(2) by blast

lemma set_metadata_doc_sel [simp]:
  "ds_id (set_metadata_doc d m) = ds_id d" "ds_type (set_metadata_doc d m) = ds_type d"
  "metadata_doc (set_metadata_doc d m) = m" "local_uri (set_metadata_doc d m) = local_uri d"
  "sources (set_metadata_doc d m) = sources d"
  by (simp_all add: set_metadata_doc_def)

section \<open>Lemmas: reads leave the store alone\<close>

lemma cached_db:
  assumes "\<And>st k. db (snd (f st k)) = db st" "\<And>c st. db (wr c st) = db st"
  shows "db (snd (cached rd wr f st k)) = db st"
  using assms(1) [of st k] assms(2)
  by (auto simp: cached_def split: option.splits sum.splits prod.splits)

lemma MetadataTypeResource_get_db [simp]: "db (snd (MetadataTypeResource_get st i)) = db st"
  unfolding MetadataTypeResource_get_def by (rule cached_db) simp_all

lemma DatasetTypeResource_make_db [simp]: "db (snd (DatasetTypeResource_make st r)) = db st"
proof (cases r)
  case None
  then show ?thesis by (simp add: DatasetTypeResource_make_def)
next
  case (Some row)
  obtain a st1 where g: "MetadataTypeResource_get st (dtr_metadata_type_ref row) = (a, st1)"
    by (cases "MetadataTypeResource_get st (dtr_metadata_type_ref row)")
  with MetadataTypeResource_get_db [of st "dtr_metadata_type_ref row"] have "db st1 = db st" by simp
  with Some g show ?thesis by (cases a) (simp_all add: DatasetTypeResource_make_def)
qed

lemma DatasetTypeResource_get_db [simp]: "db (snd (DatasetTypeResource_get st i)) = db st"
  unfolding DatasetTypeResource_get_def by (rule cached_db) simp_all

lemma DatasetResource_make_db [simp]: "db (snd (DatasetResource_make st r)) = db st"
proof (cases r)
  case None
  then show ?thesis by (simp add: DatasetResource_make_def)
next
  case (Some row)
  obtain a st1 where g: "DatasetTypeResource_get st (dataset_type_ref row) = (a, st1)"
    by (cases "DatasetTypeResource_get st (dataset_type_ref row)")
  with DatasetTypeResource_get_db [of st "dataset_type_ref row"] have "db st1 = db st" by simp
  with Some g show ?thesis by (cases a) (simp_all add: DatasetResource_make_def)
qed

lemma DatasetResource_get_db [simp]: "db (snd (DatasetResource_get st i)) = db st"
  by (simp add: DatasetResource_get_def)

lemma check_existing_db [simp]: "db (snd (check_existing st d)) = db st"
proof -
  obtain a st1 where g: "DatasetResource_get st (ds_id d) = (a, st1)"
    by (cases "DatasetResource_get st (ds_id d)")
  with DatasetResource_get_db [of st "ds_id d"] have "db st1 = db st" by simp
  with g show ?thesis by (cases a) (simp_all add: check_existing_def)
qed

section \<open>Lemmas: writes extend the store\<close>

lemma find_snoc:
  "find P (xs @ [x]) = (case find P xs of None \<Rightarrow> (if P x then Some x else None) | Some y \<Rightarrow> Some y)"
  by (induction xs) auto

lemma contains_dataset_iff: "contains_dataset d i \<longleftrightarrow> i \<in> dsr_id ` set (dataset_table d)"
  by (auto simp: contains_dataset_def get_dataset_row_def find_None_iff)

lemma insert_dataset_Inr:
  "insert_dataset d m i t = Inr (b, d1) \<Longrightarrow>
   b \<and> \<not> contains_dataset d i \<and> get_dataset_type d t \<noteq> None \<and>
   d1 = d\<lparr>dataset_table := dataset_table d @
         [\<lparr>dsr_id = i, dsr_dataset_type_ref = t,
           dsr_metadata = jsonify_dataset_doc m, dsr_archived = False\<rparr>]\<rparr>"
  by (simp add: insert_dataset_def split: if_splits)

lemma extends_refl [simp]: "extends d d"
  by (simp add: extends_def)

lemma extends_trans: "extends a b \<Longrightarrow> extends b c \<Longrightarrow> extends a c"
  by (auto simp: extends_def)

lemma store_ok_tables:
  "metadata_type_table d' = metadata_type_table d \<Longrightarrow> dataset_type_table d' = dataset_type_table d \<Longrightarrow>
   dataset_table d' = dataset_table d \<Longrightarrow> store_ok d' = store_ok d"
  by (simp add: store_ok_def types_ok_def get_metadata_type_def get_dataset_type_def)

lemma insert_dataset_extends:
  assumes "insert_dataset d m i t = Inr (b, d1)"
  shows "extends d d1"
proof -
  note f = insert_dataset_Inr [OF assms]
  let ?row = "\<lparr>dsr_id = i, dsr_dataset_type_ref = t,
           dsr_metadata = jsonify_dataset_doc m, dsr_archived = False\<rparr>"
  have t: "dataset_table d1 = dataset_table d @ [?row]"
       "metadata_type_table d1 = metadata_type_table d"
       "dataset_type_table d1 = dataset_type_table d"
       "dataset_source_table d1 = dataset_source_table d"
       "dataset_location_table d1 = dataset_location_table d"
    using f by simp_all
  have fresh: "i \<notin> dsr_id ` set (dataset_table d)" using f by (simp add: contains_dataset_iff)
  have reg: "get_dataset_type d1 t \<noteq> None" using f t by (simp add: get_dataset_type_def)
  have "store_ok d \<Longrightarrow> store_ok d1"
    using t fresh reg
    by (simp add: store_ok_def types_ok_def get_metadata_type_def get_dataset_type_def)
  with t show ?thesis by (simp add: extends_def)
qed

lemma insert_dataset_source_extends:
  assumes "insert_dataset_source d c i s = Inr d1"
  shows "extends d d1"
proof -
  have d1: "d1 = d\<lparr>dataset_source_table := dataset_source_table d @
           [\<lparr>dss_classifier = c, dss_dataset_ref = i, dss_source_dataset_ref = s\<rparr>]\<rparr>"
    using assms by (simp add: insert_dataset_source_def split: if_splits)
  then have "store_ok d1 = store_ok d" by (intro store_ok_tables) simp_all
  with d1 show ?thesis by (simp add: extends_def)
qed

lemma insert_dataset_sources_extends:
  "insert_dataset_sources d i items = (r, d2) \<Longrightarrow> extends d d2"
proof (induction items arbitrary: d)
  case Nil
  then show ?case by simp
next
  case (Cons x items)
  obtain c s where x: "x = (c, s)" by (cases x)
  show ?case
  proof (cases "insert_dataset_source d c i (ds_id s)")
    case (Inl e)
    with Cons.prems x show ?thesis by simp
  next
    case (Inr d1)
    with Cons.prems x have "insert_dataset_sources d1 i items = (r, d2)" by simp
    from Cons.IH [OF this] insert_dataset_source_extends [OF Inr] show ?thesis
      by (rule extends_trans [rotated])
  qed
qed

lemma ensure_dataset_location_extends:
  assumes "ensure_dataset_location d i u = Inr d1"
  shows "extends d d1"
proof -
  have d1: "d1 = d\<lparr>dataset_location_table := dataset_location_table d @
         [\<lparr>dsl_dataset_ref = i, dsl_uri = u\<rparr>]\<rparr>"
    using assms by (simp add: ensure_dataset_location_def split: if_splits)
  then have "store_ok d1 = store_ok d" by (intro store_ok_tables) simp_all
  with d1 show ?thesis by (simp add: extends_def)
qed

lemma ensure_location_extends: "extends (db st) (db (snd (ensure_location st d)))"
  by (auto simp: ensure_location_def dest: ensure_dataset_location_extends
      split: option.splits sum.splits)

lemma insert_dataset_and_sources_extends:
  "extends (db st) (db (snd (insert_dataset_and_sources d st)))"
proof (cases "insert_dataset (db st) (metadata_doc d) (ds_id d) (dt_id (ds_type d))")
  case (Inl e)
  then show ?thesis by (simp add: insert_dataset_and_sources_def)
next
  case (Inr p)
  obtain b d1 where p: "p = (b, d1)" by (cases p)
  obtain r d2 where l: "insert_dataset_sources d1 (ds_id d) (sources d) = (r, d2)"
    by (cases "insert_dataset_sources d1 (ds_id d) (sources d)")
  have "extends (db st) d2"
    using insert_dataset_extends [of "db st"] Inr p insert_dataset_sources_extends [OF l]
    by (metis extends_trans)
  then show ?thesis
    using Inr p l by (simp add: insert_dataset_and_sources_def split: option.splits)
qed

lemma db_begin_extends:
  assumes "\<And>st. extends (db st) (db (snd (block st)))"
  shows "extends (db st) (db (snd (db_begin raised block st)))"
  using assms [of st] by (auto simp: db_begin_def split: prod.splits)

lemma index_stripped_extends: "extends (db st) (db (snd (snd (index_stripped st d))))"
proof -
  let ?s = "set_metadata_doc d ((metadata_doc d)\<lparr>source_datasets := PDict []\<rparr>)"
  obtain r st1 where b: "db_begin isl (insert_dataset_and_sources ?s) st = (r, st1)"
    by (cases "db_begin isl (insert_dataset_and_sources ?s) st")
  have e: "extends (db st) (db st1)"
    using db_begin_extends [of "insert_dataset_and_sources ?s" st isl] b
    by (simp add: insert_dataset_and_sources_extends)
  show ?thesis
  proof (cases r)
    case (Inl e1)
    with b e show ?thesis by (simp add: index_stripped_def Let_def)
  next
    case (Inr was_inserted)
    obtain c st2 where c: "check_existing st1 ?s = (c, st2)"
      by (cases "check_existing st1 ?s")
    with check_existing_db [of st1 ?s] have "db st2 = db st1" by simp
    with Inr b e c show ?thesis
      by (simp add: index_stripped_def Let_def)
  qed
qed

lemma add_dataset_extends: "extends (db st) (db (snd (snd (add_dataset st d))))"
proof -
  obtain r d1 st1 where i: "index_stripped st d = (r, d1, st1)"
    by (cases "index_stripped st d") auto
  with index_stripped_extends [of st d] have e: "extends (db st) (db st1)" by simp
  show ?thesis
  proof (cases r)
    case (Inl e1)
    with i e show ?thesis by (simp add: add_dataset_def)
  next
    case (Inr u)
    with i e ensure_location_extends [of st1 d1] show ?thesis
      by (auto simp: add_dataset_def split: prod.splits sum.splits intro: extends_trans)
  qed
qed

lemma add_extends_mutual:
  "extends (db st) (db (snd (snd (DatasetResource_add st d skip))))"
  "extends (db st) (db (snd (snd (add_sources st srcs))))"
proof (induction st d skip and st srcs rule: DatasetResource_add_add_sources.induct)
  case (1 st i t m u srcs skip_sources)
  show ?case
  proof (cases skip_sources)
    case True
    then show ?thesis using add_dataset_extends by simp
  next
    case False
    obtain r srcs1 st1 where a: "add_sources st srcs = (r, srcs1, st1)"
      by (cases "add_sources st srcs") auto
    with 1 False have e: "extends (db st) (db st1)" by simp
    show ?thesis
    proof (cases r)
      case None
      with a False e add_dataset_extends [of st1 "Dataset i t m u srcs1"] show ?thesis
        by (auto intro: extends_trans)
    next
      case (Some e1)
      with a False e show ?thesis by simp
    qed
  qed
next
  case (2 st)
  then show ?case by simp
next
  case (3 st classifier source rest)
  obtain r s1 st1 where a: "DatasetResource_add st source False = (r, s1, st1)"
    by (cases "DatasetResource_add st source False") auto
  with 3(1) have e: "extends (db st) (db st1)" by simp
  show ?case
  proof (cases r)
    case (Inl e1)
    with a e show ?thesis by simp
  next
    case (Inr x)
    obtain r2 rest1 st2 where b: "add_sources st1 rest = (r2, rest1, st2)"
      by (cases "add_sources st1 rest") auto
    with 3(2) [OF a [symmetric] Inr refl] have "extends (db st1) (db st2)" by simp
    with a Inr b e show ?thesis by (auto intro: extends_trans)
  qed
qed

section \<open>Lemmas: reading a stored dataset\<close>

lemma find_append_Some: "find P xs = Some x \<Longrightarrow> find P (xs @ zs) = Some x"
  by (induction xs) (auto split: if_splits)

lemma find_prefix: "find P xs = Some x \<Longrightarrow> prefix xs ys \<Longrightarrow> find P ys = Some x"
  by (auto simp: prefix_def find_append_Some)

lemma get_dataset_row_extends:
  "get_dataset_row d i = Some r \<Longrightarrow> extends d d' \<Longrightarrow> get_dataset_row d' i = Some r"
  by (auto simp: get_dataset_row_def extends_def intro: find_prefix)

lemma get_locations_extends:
  "u \<in> set (get_locations d i) \<Longrightarrow> extends d d' \<Longrightarrow> u \<in> set (get_locations d' i)"
  by (auto simp: get_locations_def extends_def prefix_def)

lemma indexed_extends: "indexed d x \<Longrightarrow> extends d d' \<Longrightarrow> indexed d' x"
  by (auto simp: indexed_def split: option.splits
      dest: get_dataset_row_extends get_locations_extends)

lemma indexed_contains: "indexed d x \<Longrightarrow> contains_dataset d (ds_id x)"
  by (auto simp: indexed_def contains_dataset_def split: option.splits)

lemma contains_extends: "contains_dataset d i \<Longrightarrow> extends d d' \<Longrightarrow> contains_dataset d' i"
  by (auto simp: contains_dataset_iff extends_def prefix_def)



lemma find_SomeD: "find P xs = Some x \<Longrightarrow> x \<in> set xs \<and> P x"
  by (induction xs) (auto split: if_splits)





lemma DatasetResource_get_Inr:
  assumes "DatasetResource_get st i = (Inr existing, st1)"
  shows "\<exists>r. get_dataset_row (db st) i = Some r \<and> metadata_doc existing = dsr_metadata r"
  using assms
  by (auto simp: DatasetResource_get_def get_dataset_def DatasetResource_make_def to_dataset_res_def
      split: option.splits prod.splits sum.splits)

section \<open>Lemmas: \<open>add\<close> of one dataset\<close>

lemma stripped_sel [simp]:
  "metadata_doc (set_metadata_doc x (stripped_doc x)) = stripped_doc x"
  "stripped_doc (set_metadata_doc x (stripped_doc x)) = stripped_doc x"
  by (simp_all add: stripped_doc_def)

lemma index_stripped_unfold:
  "index_stripped st x =
     (case db_begin isl (insert_dataset_and_sources (set_metadata_doc x (stripped_doc x))) st of
        (Inl e, st1) \<Rightarrow> (Inl e, x, st1)
      | (Inr was_inserted, st1) \<Rightarrow>
          if \<not> was_inserted
          then (case check_existing st1 (set_metadata_doc x (stripped_doc x)) of
                  (r, st2) \<Rightarrow> (r, x, st2))
          else (Inr (), x, st1))"
proof -
  have "fst (snd (index_stripped st x)) = x" by (rule index_stripped_restores)
  then show ?thesis
    by (auto simp: index_stripped_def Let_def stripped_doc_def split: prod.splits sum.splits)
qed






lemma insert_dataset_and_sources_True:
  assumes "insert_dataset_and_sources x st = (Inr True, st1)"
  shows "\<exists>r. get_dataset_row (db st1) (ds_id x) = Some r \<and>
           dsr_metadata r = jsonify_dataset_doc (metadata_doc x)"
proof -
  from assms obtain b d1 where
    i: "insert_dataset (db st) (metadata_doc x) (ds_id x) (dt_id (ds_type x)) = Inr (b, d1)"
    by (auto simp: insert_dataset_and_sources_def split: sum.splits if_splits)
  note f = insert_dataset_Inr [OF i]
  let ?row = "\<lparr>dsr_id = ds_id x, dsr_dataset_type_ref = dt_id (ds_type x),
           dsr_metadata = jsonify_dataset_doc (metadata_doc x), dsr_archived = False\<rparr>"
  have "find (\<lambda>r. dsr_id r = ds_id x) (dataset_table (db st)) = None"
    using f by (simp add: contains_dataset_def get_dataset_row_def)
  then have r1: "get_dataset_row d1 (ds_id x) = Some ?row"
    using f by (simp add: get_dataset_row_def find_snoc)
  obtain r d2 where l: "insert_dataset_sources d1 (ds_id x) (sources x) = (r, d2)"
    by (cases "insert_dataset_sources d1 (ds_id x) (sources x)")
  with assms i have "db st1 = d2"
    by (auto simp: insert_dataset_and_sources_def split: option.splits if_splits)
  with get_dataset_row_extends [OF r1 insert_dataset_sources_extends [OF l]] show ?thesis by simp
qed

lemma insert_dataset_and_sources_False:
  assumes "insert_dataset_and_sources x st = (Inr False, st1)"
  shows "st1 = st"
proof (cases "insert_dataset (db st) (metadata_doc x) (ds_id x) (dt_id (ds_type x))")
  case (Inl e)
  with assms show ?thesis by (simp add: insert_dataset_and_sources_def split: if_splits)
next
  case (Inr p)
  obtain b d1 where p: "p = (b, d1)" by (cases p)
  with Inr insert_dataset_Inr have "b" by blast
  with assms Inr p show ?thesis
    by (auto simp: insert_dataset_and_sources_def split: prod.splits option.splits if_splits)
qed

lemma check_existing_Inr:
  assumes "check_existing st x = (Inr u, st1)"
  shows "\<exists>r. get_dataset_row (db st1) (ds_id x) = Some r \<and>
           dsr_metadata r = jsonify_dataset_doc (metadata_doc x)"
proof -
  from assms obtain existing where g: "DatasetResource_get st (ds_id x) = (Inr existing, st1)"
      and c: "metadata_doc existing = jsonify_dataset_doc (metadata_doc x)"
    by (auto simp: check_existing_def check_doc_unchanged_def split: prod.splits sum.splits if_splits)
  from DatasetResource_get_db [of st "ds_id x"] g have "db st1 = db st" by simp
  with DatasetResource_get_Inr [OF g] c show ?thesis by auto
qed

lemma index_stripped_Inr:
  assumes "index_stripped st x = (Inr u, x1, st1)"
  shows "\<exists>r. get_dataset_row (db st1) (ds_id x) = Some r \<and>
           dsr_metadata r = jsonify_dataset_doc (stripped_doc x)"
proof -
  let ?s = "set_metadata_doc x (stripped_doc x)"
  obtain a st0 where b: "db_begin isl (insert_dataset_and_sources ?s) st = (a, st0)"
    by (cases "db_begin isl (insert_dataset_and_sources ?s) st")
  with assms obtain w where a: "a = Inr w" by (cases a) (auto simp: index_stripped_unfold)
  from b a have body: "insert_dataset_and_sources ?s st = (Inr w, st0)"
    by (auto simp: db_begin_def split: prod.splits if_splits)
  show ?thesis
  proof (cases w)
    case True
    with assms b a have "st1 = st0" by (simp add: index_stripped_unfold)
    with insert_dataset_and_sources_True [of ?s st st0] body True show ?thesis by simp
  next
    case False
    with assms b a have "check_existing st0 ?s = (Inr u, st1)"
      by (auto simp: index_stripped_unfold split: prod.splits)
    from check_existing_Inr [OF this] show ?thesis by simp
  qed
qed

lemma ensure_dataset_location_Inr:
  "ensure_dataset_location d i uri = Inr d1 \<Longrightarrow> uri \<in> set (get_locations d1 i)"
proof -
  assume "ensure_dataset_location d i uri = Inr d1"
  then have "dataset_location_table d1 =
      dataset_location_table d @ [\<lparr>dsl_dataset_ref = i, dsl_uri = uri\<rparr>]"
    by (auto simp: ensure_dataset_location_def split: if_splits)
  then show ?thesis by (simp add: get_locations_def)
qed

lemma ensure_dataset_location_duplicate:
  "ensure_dataset_location d i uri = Inl e \<Longrightarrow> is_DuplicateRecordError e \<Longrightarrow>
   uri \<in> set (get_locations d i)"
  by (auto simp: ensure_dataset_location_def is_DuplicateRecordError_def split: if_splits)

lemma ensure_location_Inr:
  assumes "ensure_location st x = (Inr u, st1)"
  shows "(case local_uri x of
            None \<Rightarrow> True
          | Some uri \<Rightarrow> uri = [] \<or> uri \<in> set (get_locations (db st1) (ds_id x)))"
proof (cases "local_uri x")
  case None
  then show ?thesis by simp
next
  case (Some uri)
  show ?thesis
  proof (cases "uri = []")
    case True
    with Some show ?thesis by simp
  next
    case False
    show ?thesis
    proof (cases "ensure_dataset_location (db st) (ds_id x) uri")
      case (Inl e)
      with assms Some False have "is_DuplicateRecordError e" "st1 = st"
        by (auto simp: ensure_location_def split: if_splits)
      with ensure_dataset_location_duplicate [OF Inl] Some show ?thesis by simp
    next
      case (Inr d)
      with assms Some False have "db st1 = d" by (auto simp: ensure_location_def)
      with ensure_dataset_location_Inr [OF Inr] Some show ?thesis by simp
    qed
  qed
qed

lemma add_dataset_Inr_indexed:
  assumes "add_dataset st x = (Inr y, x1, st1)"
  shows "indexed (db st1) x"
proof -
  from assms obtain u x0 st0 where i: "index_stripped st x = (Inr u, x0, st0)"
      and e: "ensure_location st0 x0 = (Inr (), st1)"
    by (auto simp: add_dataset_def split: prod.splits sum.splits)
  from index_stripped_restores [of st x] i have "x0 = x" by simp
  with e have e1: "ensure_location st0 x = (Inr (), st1)" by simp
  from index_stripped_Inr [OF i] obtain r where
    r: "get_dataset_row (db st0) (ds_id x) = Some r"
       "dsr_metadata r = jsonify_dataset_doc (stripped_doc x)" by auto
  from ensure_location_extends [of st0 x] e1 have "extends (db st0) (db st1)" by simp
  from get_dataset_row_extends [OF r(1) this] r(2) ensure_location_Inr [OF e1]
  show ?thesis by (simp add: indexed_def)
qed

section \<open>Lemmas: \<open>add\<close> with its sources\<close>

lemma list_all_indexed_extends:
  "list_all (indexed d) xs \<Longrightarrow> extends d d' \<Longrightarrow> list_all (indexed d') xs"
  by (auto simp: list_all_iff intro: indexed_extends)

lemma add_Inr_indexed_mutual:
  "(\<forall>y x1 st1. DatasetResource_add st x skip = (Inr y, x1, st1) \<longrightarrow>
      indexed (db st1) x \<and> (\<not> skip \<longrightarrow> list_all (indexed (db st1)) (all_sources x)))"
  "(\<forall>s1 st1. add_sources st srcs = (None, s1, st1) \<longrightarrow>
      list_all (indexed (db st1)) (concat (map (\<lambda>(c, s). all_sources s @ [s]) srcs)))"
proof (induction st x skip and st srcs rule: DatasetResource_add_add_sources.induct)
  case (1 st i t m u srcs skip_sources)
  show ?case
  proof (intro allI impI)
    fix y x1 st1
    assume a: "DatasetResource_add st (Dataset i t m u srcs) skip_sources = (Inr y, x1, st1)"
    show "indexed (db st1) (Dataset i t m u srcs) \<and>
          (\<not> skip_sources \<longrightarrow> list_all (indexed (db st1)) (all_sources (Dataset i t m u srcs)))"
    proof (cases skip_sources)
      case True
      with a add_dataset_Inr_indexed show ?thesis by auto
    next
      case False
      obtain r srcs1 st0 where l: "add_sources st srcs = (r, srcs1, st0)"
        by (cases "add_sources st srcs") auto
      with a False have r: "r = None" by (cases r) auto
      from add_sources_restores [OF l] have s: "srcs1 = srcs" .
      from a False l r s have ad: "add_dataset st0 (Dataset i t m u srcs) = (Inr y, x1, st1)" by simp
      from 1 False l r have "list_all (indexed (db st0)) (concat (map (\<lambda>(c, s). all_sources s @ [s]) srcs))"
        by simp
      moreover from add_dataset_extends [of st0 "Dataset i t m u srcs"] ad
      have "extends (db st0) (db st1)" by simp
      ultimately have "list_all (indexed (db st1)) (all_sources (Dataset i t m u srcs))"
        using list_all_indexed_extends by simp
      with add_dataset_Inr_indexed [OF ad] False show ?thesis by simp
    qed
  qed
next
  case (2 st)
  then show ?case by simp
next
  case (3 st classifier source rest)
  show ?case
  proof (intro allI impI)
    fix s1 st2
    assume a: "add_sources st ((classifier, source) # rest) = (None, s1, st2)"
    obtain r x1 st1 where f: "DatasetResource_add st source False = (r, x1, st1)"
      by (cases "DatasetResource_add st source False") auto
    with a obtain y where r: "r = Inr y" by (cases r) auto
    obtain r2 rest1 st2' where l: "add_sources st1 rest = (r2, rest1, st2')"
      by (cases "add_sources st1 rest") auto
    with a f r have r2: "r2 = None" "st2' = st2" by auto
    from 3(1) f r have i1: "indexed (db st1) source" "list_all (indexed (db st1)) (all_sources source)"
      by auto
    from 3(2) [OF f [symmetric] r refl] l r2
    have i2: "list_all (indexed (db st2)) (concat (map (\<lambda>(c, s). all_sources s @ [s]) rest))" by simp
    from add_extends_mutual(2) [of st1 rest] l r2 have "extends (db st1) (db st2)" by simp
    with i1 have "indexed (db st2) source" "list_all (indexed (db st2)) (all_sources source)"
      using indexed_extends list_all_indexed_extends by blast+
    with i2 show "list_all (indexed (db st2))
        (concat (map (\<lambda>(c, s). all_sources s @ [s]) ((classifier, source) # rest)))"
      by simp
  qed
qed


lemma DatasetResource_has_fun:
  "DatasetResource_has st = (\<lambda>u. contains_dataset (db st) (ds_id u))"
  by (rule ext) (simp add: DatasetResource_has_def)

section \<open>Properties of \<open>add\<close>: the caller's dataset\<close>

text \<open>
  C6. Whatever \<open>add\<close> does - return, or raise at any point, a conflict included - the
  caller's dataset is afterwards what it was before the call, lineage section and all, and
  a call that returns returns that very dataset, not the stored copy.
\<close>

theorem add_returns_the_dataset_restored:
  "(case DatasetResource_add st dataset skip_sources of
      (r, dataset1, st1) \<Rightarrow>
        dataset1 = dataset \<and> (case r of Inl e \<Rightarrow> True | Inr returned \<Rightarrow> returned = dataset))"
  using add_restores_mutual(1) [of st dataset skip_sources]
  by (auto split: prod.splits sum.splits)

section \<open>The query mapping of the caller\<close>

lemma pin_and_compile_frame:
  "pin_and_compile h q t = (r, h1) \<Longrightarrow> take q h1 = take q h \<and> length h1 = length h"
  by (auto simp: pin_and_compile_def Let_def split: option.splits sum.splits)

lemma search_loop_frame:
  "search_loop consume rf ws q ps h st = (r, h1, st1) \<Longrightarrow>
   take q h1 = take q h \<and> length h1 = length h"
proof (induction ps arbitrary: h st r h1 st1)
  case Nil
  then show ?case by simp
next
  case (Cons p ps)
  show ?case
  proof (cases "advance st p")
    case (Pair a st')
    show ?thesis
    proof (cases a)
      case (Inl e)
      with Cons.prems Pair show ?thesis by simp
    next
      case (Inr o1)
      show ?thesis
      proof (cases o1)
        case None
        with Cons.prems Pair Inr Cons.IH show ?thesis by simp
      next
        case (Some t)
        obtain c h' where pc: "pin_and_compile h q t = (c, h')" by (cases "pin_and_compile h q t")
        note fr = pin_and_compile_frame [OF pc]
        show ?thesis
          using Cons.prems Pair Inr Some pc fr Cons.IH
          by (auto split: sum.splits prod.splits)
      qed
    qed
  qed
qed

lemma count_loop_frame:
  "count_loop q ps n h st = (r, h1, st1) \<Longrightarrow>
   take q h1 = take q h \<and> length h1 = length h"
proof (induction ps arbitrary: h st n r h1 st1)
  case Nil
  then show ?case by simp
next
  case (Cons p ps)
  show ?case
  proof (cases "advance st p")
    case (Pair a st')
    show ?thesis
    proof (cases a)
      case (Inl e)
      with Cons.prems Pair show ?thesis by simp
    next
      case (Inr o1)
      show ?thesis
      proof (cases o1)
        case None
        with Cons.prems Pair Inr Cons.IH show ?thesis by simp
      next
        case (Some t)
        obtain c h' where pc: "pin_and_compile h q t = (c, h')" by (cases "pin_and_compile h q t")
        note fr = pin_and_compile_frame [OF pc]
        show ?thesis
          using Cons.prems Pair Inr Some pc fr Cons.IH
          by (auto split: sum.splits prod.splits)
      qed
    qed
  qed
qed

lemma del_product_frame:
  "take q (del_product h q) = take q h \<and> length (del_product h q) = length h"
  by (simp add: del_product_def)

lemma do_search_frame:
  "do_search consume st h query_ref rf ws = (r, h1, st1) \<Longrightarrow> take (length h) h1 = h"
proof -
  assume a: "do_search consume st h query_ref rf ws = (r, h1, st1)"
  obtain g st' where g: "get_dataset_types st ((h @ [h ! query_ref]) ! length h) = (g, st')"
    by (cases "get_dataset_types st ((h @ [h ! query_ref]) ! length h)")
  show ?thesis
  proof (cases g)
    case (Inl e)
    with a g show ?thesis by (auto simp: do_search_def copy_query_def)
  next
    case (Inr ts)
    with a g have "search_loop consume rf ws (length h) (iterate (db st') ts)
        (del_product (h @ [h ! query_ref]) (length h)) st' = (r, h1, st1)"
      by (simp add: do_search_def copy_query_def)
    from search_loop_frame [OF this] del_product_frame [of "length h" "h @ [h ! query_ref]"]
    show ?thesis by simp
  qed
qed

lemma do_count_frame:
  "do_count st h query_ref = (r, h1, st1) \<Longrightarrow> take (length h) h1 = h"
proof -
  assume a: "do_count st h query_ref = (r, h1, st1)"
  obtain g st' where g: "get_dataset_types st ((h @ [h ! query_ref]) ! length h) = (g, st')"
    by (cases "get_dataset_types st ((h @ [h ! query_ref]) ! length h)")
  show ?thesis
  proof (cases g)
    case (Inl e)
    with a g show ?thesis by (auto simp: do_count_def copy_query_def)
  next
    case (Inr ts)
    with a g have "count_loop (length h) (iterate (db st') ts) 0
        (del_product (h @ [h ! query_ref]) (length h)) st' = (r, h1, st1)"
      by (simp add: do_count_def copy_query_def)
    from count_loop_frame [OF this] del_product_frame [of "length h" "h @ [h ! query_ref]"]
    show ?thesis by simp
  qed
qed

text \<open>
  C10. \<open>search\<close>, \<open>count\<close>, \<open>search_summaries\<close> and \<open>search_eager\<close> work on a copy
  of the query mapping: after the call every object the heap held before the call, the
  caller's mapping among them, is what it was; the product key is removed from, and the
  type pin written into, the copy that the call allocated behind them.
\<close>

theorem search_and_count_leave_the_query:
  "take (length h) (fst (snd (DatasetResource_search st h query_ref))) = h \<and>
   take (length h) (fst (snd (DatasetResource_count st h query_ref))) = h \<and>
   take (length h) (fst (snd (DatasetResource_search_summaries st h query_ref))) = h \<and>
   take (length h) (fst (snd (DatasetResource_search_eager st h query_ref))) = h"
  unfolding DatasetResource_search_def DatasetResource_count_def
    DatasetResource_search_summaries_def DatasetResource_search_eager_def
  by (metis do_search_frame do_count_frame prod.collapse)

section \<open>Lineage reconstruction\<close>

lemma update_fresh: "k \<notin> fst ` set al \<Longrightarrow> AList.update k v al = al @ [(k, v)]"
  by (induction al) auto

lemma make_datasets_distinct:
  "make_datasets st batch acc = (Inr datasets, st1) \<Longrightarrow> distinct (map res_id batch) \<Longrightarrow>
   fst ` set acc \<inter> res_id ` set batch = {} \<Longrightarrow>
   map fst datasets = map fst acc @ map res_id batch \<and>
   map (\<lambda>(k, obj, result_row). result_row) datasets =
     map (\<lambda>(k, obj, result_row). result_row) acc @ batch"
proof (induction batch arbitrary: st acc)
  case Nil
  then show ?case by simp
next
  case (Cons r batch)
  obtain a st' where mk: "DatasetResource_make st (Some r) = (a, st')"
    by (cases "DatasetResource_make st (Some r)")
  with Cons.prems(1) obtain d where a: "a = Inr d" by (cases a) auto
  let ?acc = "acc @ [(res_id r, \<lparr>made = d, lineage_source_datasets = None, object_sources = None\<rparr>, r)]"
  have fresh: "res_id r \<notin> fst ` set acc" using Cons.prems(3) by auto
  have step: "make_datasets st' batch ?acc = (Inr datasets, st1)"
    using Cons.prems(1) mk a update_fresh [OF fresh] by simp
  have disj: "fst ` set ?acc \<inter> res_id ` set batch = {}"
    using Cons.prems(2,3) by auto
  from Cons.IH [OF step _ disj] Cons.prems(2) show ?case by simp
qed

lemma sources_comprehension_absent:
  "sources_comprehension keys zs acc =
     (case concat (map (\<lambda>(source, classifier).
                    case source of
                      None \<Rightarrow> []
                    | Some s \<Rightarrow> if s \<noteq> [] \<and> s \<notin> set keys then [s] else []) zs) of
        [] \<Rightarrow> sources_comprehension keys zs acc
      | s # ss \<Rightarrow> Inl (KeyError s))"
  by (induction keys zs acc rule: sources_comprehension.induct)
     (auto split: option.splits list.splits)

lemma sources_comprehension_complete:
  "concat (map (\<lambda>(source, classifier).
                    case source of
                      None \<Rightarrow> []
                    | Some s \<Rightarrow> if s \<noteq> [] \<and> s \<notin> set keys then [s] else []) zs) = [] \<Longrightarrow>
   \<exists>refs. sources_comprehension keys zs acc = Inr refs"
  by (induction keys zs acc rule: sources_comprehension.induct)
     (auto split: option.splits list.splits if_splits)

lemma resolve_sources_absent:
  "concat (map (\<lambda>(k, obj, result_row). absent_sources keys result_row) table) = s # ss \<Longrightarrow>
   resolve_sources keys table = Inl (KeyError s)"
proof (induction table)
  case Nil
  then show ?case by simp
next
  case (Cons x table)
  obtain k obj result_row where x: "x = (k, obj, result_row)" by (cases x)
  show ?case
  proof (cases "absent_sources keys result_row")
    case Nil
    then obtain refs where
      "sources_comprehension keys (zip (res_sources result_row) (res_classes result_row)) [] = Inr refs"
      using sources_comprehension_complete [of keys _ "[]"] by (auto simp: absent_sources_def)
    moreover have "resolve_sources keys table = Inl (KeyError s)"
      using Cons x Nil by simp
    ultimately show ?thesis using x by simp
  next
    case (Cons a as)
    then have "a = s" using Cons.prems x by simp
    moreover have
      "sources_comprehension keys (zip (res_sources result_row) (res_classes result_row)) [] =
         Inl (KeyError a)"
      using Cons sources_comprehension_absent [of keys "zip (res_sources result_row) (res_classes result_row)" "[]"]
      by (simp add: absent_sources_def)
    ultimately show ?thesis using x by simp
  qed
qed

lemma resolve_sources_complete:
  "concat (map (\<lambda>(k, obj, result_row). absent_sources keys result_row) table) = [] \<Longrightarrow>
   \<exists>resolved. resolve_sources keys table = Inr resolved \<and> map fst resolved = map fst table"
proof (induction table)
  case Nil
  then show ?case by simp
next
  case (Cons x table)
  obtain k obj result_row where x: "x = (k, obj, result_row)" by (cases x)
  from Cons.prems x have "absent_sources keys result_row = []" by simp
  then obtain refs where
    "sources_comprehension keys (zip (res_sources result_row) (res_classes result_row)) [] = Inr refs"
    using sources_comprehension_complete [of keys _ "[]"] by (auto simp: absent_sources_def)
  moreover obtain resolved where "resolve_sources keys table = Inr resolved"
      "map fst resolved = map fst table"
    using Cons x by auto
  ultimately show ?case using x by simp
qed

lemma concat_rows:
  "concat (map (\<lambda>(k, obj, result_row). f result_row) table) =
   concat (map f (map (\<lambda>(k, obj, result_row). result_row) table))"
  by (induction table) auto

text \<open>
  C2, as the code has it. Only a source id that is null (or empty) is skipped. When the
  rows of the batch were made into datasets and some row names a source id that is not an
  id of the batch, \<open>get\<close> with sources fails: \<open>datasets[str(source)]\<close> raises the
  KeyError of the first such id. It completes exactly when no row names such an id and the
  requested id is in the batch.
\<close>

theorem get_fails_on_absent_source:
  assumes "make_datasets st batch [] = (Inr datasets, st1)"
    and "distinct (map res_id batch)"
  shows "(case absent_from_batch batch of
            s # ss \<Rightarrow> fst (reconstruct st batch i) = Inl (KeyError s)
          | [] \<Rightarrow>
              if i \<in> set (map res_id batch) then (\<exists>found. fst (reconstruct st batch i) = Inr found)
              else fst (reconstruct st batch i) = Inl (KeyError i))"
proof -
  from make_datasets_distinct [OF assms] have
    keys: "map fst datasets = map res_id batch" and
    rows: "map (\<lambda>(k, obj, result_row). result_row) datasets = batch" by simp_all
  have ab: "concat (map (\<lambda>(k, obj, result_row). absent_sources (map fst datasets) result_row) datasets)
      = absent_from_batch batch"
    using concat_rows [of "absent_sources (map fst datasets)" datasets] keys rows
    by (simp add: absent_from_batch_def)
  show ?thesis
  proof (cases "absent_from_batch batch")
    case (Cons s ss)
    with ab resolve_sources_absent have "resolve_sources (map fst datasets) datasets = Inl (KeyError s)"
      by metis
    with assms(1) Cons show ?thesis by (simp add: reconstruct_def)
  next
    case Nil
    with ab resolve_sources_complete obtain resolved where
      r: "resolve_sources (map fst datasets) datasets = Inr resolved"
         "map fst resolved = map fst datasets" by metis
    show ?thesis
    proof (cases "map_of resolved i")
      case None
      then have "i \<notin> set (map res_id batch)"
        using r(2) keys by (metis map_of_eq_None_iff set_map)
      with assms(1) r None Nil show ?thesis by (simp add: reconstruct_def)
    next
      case (Some a)
      then have "i \<in> set (map res_id batch)"
        using r(2) keys by (metis map_of_eq_None_iff option.distinct(1) set_map)
      with assms(1) r Some Nil show ?thesis
        by (cases a) (simp add: reconstruct_def)
    qed
  qed
qed

text \<open>
  C2 as stated fails: the batch holds \<open>a\<close>, whose source \<open>b\<close> it does not hold; the
  pair is not skipped, the call raises.
\<close>

theorem get_absent_source_counterexample:
  "''b'' \<notin> set (map res_id [row_a]) \<and>
   fst (reconstruct (new_index ls5_db) [row_a] ''a'') = Inl (KeyError ''b'')"
  by (simp add: reconstruct_def type_read_defs example_defs)

lemma make_datasets_row_a: "\<exists>datasets st1. make_datasets (new_index ls5_db) [row_a] [] = (Inr datasets, st1)"
  by (simp add: type_read_defs example_defs)

lemma make_datasets_rows_a_b: "\<exists>datasets st1. make_datasets (new_index ls5_db) [row_a, row_b] [] = (Inr datasets, st1)"
  by (simp add: type_read_defs example_defs)

theorem get_fails_on_absent_source_witness:
  "fst (reconstruct (new_index ls5_db) [row_a] ''a'') = Inl (KeyError ''b'') \<and>
   (\<exists>found. fst (reconstruct (new_index ls5_db) [row_a, row_b] ''a'') = Inr found) \<and>
   fst (reconstruct (new_index ls5_db) [row_a, row_b] ''c'') = Inl (KeyError ''c'')"
proof -
  obtain d1 s1 where m1: "make_datasets (new_index ls5_db) [row_a] [] = (Inr d1, s1)"
    using make_datasets_row_a by blast
  obtain d2 s2 where m2: "make_datasets (new_index ls5_db) [row_a, row_b] [] = (Inr d2, s2)"
    using make_datasets_rows_a_b by blast
  have di1: "distinct (map res_id [row_a])" by simp
  have di2: "distinct (map res_id [row_a, row_b])" by (simp add: row_a_def row_b_def)
  have a1: "absent_from_batch [row_a] = [''b'']"
    by (simp add: absent_from_batch_def absent_sources_def row_a_def)
  have a2: "absent_from_batch [row_a, row_b] = []"
    by (simp add: absent_from_batch_def absent_sources_def row_a_def row_b_def)
  show ?thesis
    using get_fails_on_absent_source [OF m1 di1, of "''a''"]
      get_fails_on_absent_source [OF m2 di2, of "''a''"]
      get_fails_on_absent_source [OF m2 di2, of "''c''"] a1 a2
    by (simp add: row_a_def row_b_def)
qed

section \<open>Queries that no dataset type matches\<close>

lemma get_dataset_types_no_product:
  "''product'' \<notin> set (map fst q) \<Longrightarrow> get_dataset_types st q = (Inr (TypeGenerator (map fst q)), st)"
  by (simp add: get_dataset_types_def truth_of_def)

text \<open>
  C3 does not hold of the code: the test \<open>if not types\<close> is made on the generator object
  of \<open>get_with_fields\<close>, which is true whatever it will yield, so the ValueError is
  never raised. The store has the one product \<open>ls5\<close>, whose fields are \<open>id\<close>,
  \<open>dataset_type_id\<close> and \<open>time\<close>; a query for \<open>lat\<close> without a product key counts 0
  and finds nothing, without an error.
\<close>

theorem no_matching_type_is_not_an_error:
  "fst (DatasetResource_count (new_index ls5_db) [[(''lat'', QNum 1)]] 0) = Inr 0 \<and>
   fst (DatasetResource_search (new_index ls5_db) [[(''lat'', QNum 1)]] 0) = Inr []"
  by (simp add: DatasetResource_count_def do_count_def DatasetResource_search_def do_search_def
      copy_query_def get_dataset_types_def truth_of_def iterate_def get_all_dataset_types_def
      del_product_def advance_def type_read_defs example_defs)

section \<open>Adding a metadata type or a dataset type\<close>







lemma metadata_type_get_keeps_by_name_cache:
  "dataset_type_get_by_name_cache (snd (MetadataTypeResource_get st i)) = dataset_type_get_by_name_cache st \<and>
   timer (snd (MetadataTypeResource_get st i)) = timer st"
  by (simp add: MetadataTypeResource_get_def cached_def split: option.splits sum.splits)






section \<open>A duplicate source edge\<close>







section \<open>Adding a dataset twice\<close>










section \<open>Sources before dependents\<close>

lemma source_in_all_sources:
  "(c, s) \<in> set (sources x) \<Longrightarrow> s \<in> set (all_sources x)"
  by (cases x) force

lemma insert_dataset_sources_integrity:
  "contains_dataset d i \<Longrightarrow> list_all (\<lambda>(c, s). contains_dataset d (ds_id s)) items \<Longrightarrow>
   (case fst (insert_dataset_sources d i items) of
      None \<Rightarrow> True
    | Some e \<Rightarrow> is_DuplicateRecordError e)"
proof (induction items arbitrary: d)
  case Nil
  then show ?case by simp
next
  case (Cons x items)
  obtain c s where x: "x = (c, s)" by (cases x)
  show ?case
  proof (cases "insert_dataset_source d c i (ds_id s)")
    case (Inl e)
    with Cons.prems x have "is_DuplicateRecordError e"
      by (auto simp: insert_dataset_source_def is_DuplicateRecordError_def split: if_splits)
    with Inl x show ?thesis by simp
  next
    case (Inr d1)
    note e = insert_dataset_source_extends [OF Inr]
    have "contains_dataset d1 i" using Cons.prems(1) e by (rule contains_extends)
    moreover have "list_all (\<lambda>(c, s). contains_dataset d1 (ds_id s)) items"
      using Cons.prems(2) e by (auto simp: list_all_iff intro: contains_extends)
    ultimately show ?thesis using Cons.IH [of d1] Inr x by simp
  qed
qed

text \<open>
  C5. \<open>add\<close> without \<open>skip_sources\<close> first runs the loop over the sources. If the loop
  raises, \<open>add\<close> raises from the state the loop left, before anything of the dataset
  itself is written. Otherwise \<open>add\<close> goes on from the state the loop left: in that
  state \<open>has\<close> holds of every dataset reachable through \<open>sources\<close>, so every one of
  them is stored before the dataset's own row is inserted; and in the store in which the
  dataset's edges are written (the one \<open>insert_dataset\<close> answers) every direct source is
  stored, so that no edge is refused for a missing dataset.
\<close>

theorem sources_are_indexed_first:
  "(case add_sources st (sources dataset) of
      (Some e, srcs1, st1) \<Rightarrow> DatasetResource_add st dataset False = (Inl e, dataset, st1)
    | (None, srcs1, st1) \<Rightarrow>
        DatasetResource_add st dataset False = add_dataset st1 dataset \<and>
        list_all (DatasetResource_has st1) (all_sources dataset) \<and>
        (case insert_dataset (db st1) (stripped_doc dataset) (ds_id dataset)
                (dt_id (ds_type dataset)) of
           Inl e \<Rightarrow> True
         | Inr (was_inserted, d1) \<Rightarrow>
             list_all (\<lambda>(classifier, source). contains_dataset d1 (ds_id source)) (sources dataset) \<and>
             (case fst (insert_dataset_sources d1 (ds_id dataset) (sources dataset)) of
                None \<Rightarrow> True
              | Some e \<Rightarrow> is_DuplicateRecordError e)))"
proof -
  obtain r srcs1 st1 where l: "add_sources st (sources dataset) = (r, srcs1, st1)"
    by (cases "add_sources st (sources dataset)") auto
  from add_sources_restores [OF l] have s: "srcs1 = sources dataset" .
  show ?thesis
  proof (cases r)
    case (Some e)
    with l s show ?thesis by (cases dataset) simp
  next
    case None
    with l s have a: "DatasetResource_add st dataset False = add_dataset st1 dataset"
      by (cases dataset) simp
    from add_Inr_indexed_mutual(2) [of st "sources dataset"] l None
    have "list_all (indexed (db st1)) (all_sources dataset)" by (cases dataset) simp
    then have h: "list_all (\<lambda>s. contains_dataset (db st1) (ds_id s)) (all_sources dataset)"
      by (auto simp: list_all_iff intro: indexed_contains)
    have e: "(case insert_dataset (db st1) (stripped_doc dataset) (ds_id dataset)
                (dt_id (ds_type dataset)) of
           Inl e \<Rightarrow> True
         | Inr (was_inserted, d1) \<Rightarrow>
             list_all (\<lambda>(classifier, source). contains_dataset d1 (ds_id source)) (sources dataset) \<and>
             (case fst (insert_dataset_sources d1 (ds_id dataset) (sources dataset)) of
                None \<Rightarrow> True
              | Some e \<Rightarrow> is_DuplicateRecordError e))"
    proof (cases "insert_dataset (db st1) (stripped_doc dataset) (ds_id dataset) (dt_id (ds_type dataset))")
      case (Inl e)
      then show ?thesis by simp
    next
      case (Inr p)
      obtain b d1 where p: "p = (b, d1)" by (cases p)
      note ex = insert_dataset_extends [OF Inr [unfolded p]]
      have direct: "list_all (\<lambda>(c, s). contains_dataset d1 (ds_id s)) (sources dataset)"
        using h ex by (auto simp: list_all_iff dest!: source_in_all_sources intro: contains_extends)
      have "dataset_table d1 = dataset_table (db st1) @
         [\<lparr>dsr_id = ds_id dataset, dsr_dataset_type_ref = dt_id (ds_type dataset),
           dsr_metadata = jsonify_dataset_doc (stripped_doc dataset), dsr_archived = False\<rparr>]"
        using insert_dataset_Inr [OF Inr [unfolded p]] by simp
      then have "contains_dataset d1 (ds_id dataset)" by (simp add: contains_dataset_iff)
      from insert_dataset_sources_integrity [OF this direct] direct Inr p show ?thesis by simp
    qed
    from l None a h e show ?thesis by (simp add: DatasetResource_has_fun)
  qed
qed

lemma add_sources_e:
  "fst (add_sources (new_index sources_db) (sources dataset_e)) = None"
  by (simp add: dataset_e_def add_defs store_defs type_read_defs dataset_defs example_defs)

theorem sources_are_indexed_first_witness:
  "fst (add_sources (new_index sources_db) (sources dataset_e)) = None \<and>
   DatasetResource_add (new_index sources_db) dataset_e False =
     add_dataset (snd (snd (add_sources (new_index sources_db) (sources dataset_e)))) dataset_e \<and>
   DatasetResource_has (snd (snd (add_sources (new_index sources_db) (sources dataset_e)))) dataset_s"
  using sources_are_indexed_first [of "new_index sources_db" dataset_e] add_sources_e
  by (auto simp: dataset_e_def dataset_s_def split: prod.splits option.splits)

section \<open>replace\<close>

lemma add_all_extends: "extends (db st) (db (snd (snd (add_all st units))))"
proof (induction units arbitrary: st)
  case Nil
  then show ?case by simp
next
  case (Cons u units)
  obtain r u1 st1 where a: "DatasetResource_add st u False = (r, u1, st1)"
    by (cases "DatasetResource_add st u False") auto
  with add_extends_mutual(1) [of st u False] have e: "extends (db st) (db st1)" by simp
  show ?case
  proof (cases r)
    case (Inl e1)
    with a e show ?thesis by simp
  next
    case (Inr y)
    with a e Cons [of st1] show ?thesis
      by (auto split: prod.splits intro: extends_trans)
  qed
qed

lemma add_all_restores: "fst (snd (add_all st units)) = units"
proof (induction units arbitrary: st)
  case Nil
  then show ?case by simp
next
  case (Cons u units)
  obtain r u1 st1 where a: "DatasetResource_add st u False = (r, u1, st1)"
    by (cases "DatasetResource_add st u False") auto
  from add_restores [OF a] have "u1 = u" .
  with a Cons [of st1] show ?case by (cases r) (auto split: prod.splits)
qed

lemma add_all_None_contains:
  "add_all st units = (None, units1, st1) \<Longrightarrow>
   list_all (\<lambda>u. contains_dataset (db st1) (ds_id u)) units"
proof (induction units arbitrary: st units1)
  case Nil
  then show ?case by simp
next
  case (Cons u units)
  obtain r u1 st0 where a: "DatasetResource_add st u False = (r, u1, st0)"
    by (cases "DatasetResource_add st u False") auto
  with Cons.prems obtain y where r: "r = Inr y" by (cases r) auto
  obtain r2 rest1 st2 where b: "add_all st0 units = (r2, rest1, st2)"
    by (cases "add_all st0 units") auto
  with Cons.prems a r have r2: "r2 = None" "st2 = st1" by auto
  from add_Inr_indexed_mutual(1) [of st u False] a r have "contains_dataset (db st0) (ds_id u)"
    by (auto intro: indexed_contains)
  moreover from add_all_extends [of st0 units] b r2 have "extends (db st0) (db st1)" by simp
  ultimately have "contains_dataset (db st1) (ds_id u)" by (rule contains_extends)
  with Cons.IH [of st0 rest1] b r2 show ?case by simp
qed

lemma archive_storage_unit_tables:
  "dataset_table (archive_storage_unit d i) =
     map (\<lambda>r. if dsr_id r = i then r\<lparr>dsr_archived := True\<rparr> else r) (dataset_table d)"
  by (simp add: archive_storage_unit_def)

lemma archive_all_table:
  "dataset_table (archive_all units d) =
     map (\<lambda>r. if dsr_id r \<in> set (map ds_id units) then r\<lparr>dsr_archived := True\<rparr> else r)
       (dataset_table d)"
proof (induction units arbitrary: d)
  case Nil
  then show ?case by (simp add: archive_all_def)
next
  case (Cons u units)
  have "archive_all (u # units) d = archive_all units (archive_storage_unit d (ds_id u))"
    by (simp add: archive_all_def)
  then show ?case using Cons [of "archive_storage_unit d (ds_id u)"]
    by (auto simp: archive_storage_unit_tables)
qed

text \<open>
  C4. \<open>replace\<close> archives the old datasets and adds the new ones in one transaction.
  If adding a new dataset raises, \<open>replace\<close> raises and the store is what it was before
  the call: no archive mark is kept. If \<open>replace\<close> returns, the rows the store had are
  there with every row of an old dataset marked archived, and every new dataset is
  stored. The callers' new datasets are unchanged either way.
\<close>

theorem replace_is_one_transaction:
  "(case DatasetResource_replace st old_datasets new_datasets of
      ((Some e, new1), st1) \<Rightarrow> db st1 = db st \<and> new1 = new_datasets
    | ((None, new1), st1) \<Rightarrow>
        take (length (dataset_table (db st))) (dataset_table (db st1)) =
          map (\<lambda>r. if dsr_id r \<in> set (map ds_id old_datasets) then r\<lparr>dsr_archived := True\<rparr> else r)
            (dataset_table (db st)) \<and>
        list_all (DatasetResource_has st1) new_datasets \<and> new1 = new_datasets)"
proof -
  let ?st0 = "st\<lparr>db := archive_all old_datasets (db st)\<rparr>"
  obtain r new1 st1 where a: "add_all ?st0 new_datasets = (r, new1, st1)"
    by (cases "add_all ?st0 new_datasets") auto
  from add_all_restores [of ?st0 new_datasets] a have n: "new1 = new_datasets" by simp
  show ?thesis
  proof (cases r)
    case (Some e)
    with a n show ?thesis by (simp add: DatasetResource_replace_def db_begin_def)
  next
    case None
    from add_all_extends [of ?st0 new_datasets] a
    have "prefix (dataset_table (archive_all old_datasets (db st))) (dataset_table (db st1))"
      by (simp add: extends_def)
    then have "take (length (dataset_table (archive_all old_datasets (db st)))) (dataset_table (db st1))
        = dataset_table (archive_all old_datasets (db st))"
      by (auto simp: prefix_def)
    then have t: "take (length (dataset_table (db st))) (dataset_table (db st1)) =
          map (\<lambda>r. if dsr_id r \<in> set (map ds_id old_datasets) then r\<lparr>dsr_archived := True\<rparr> else r)
            (dataset_table (db st))"
      by (simp add: archive_all_table)
    from add_all_None_contains [of ?st0 new_datasets new1 st1] a None
    have "list_all (DatasetResource_has st1) new_datasets"
      by (simp add: DatasetResource_has_fun)
    with a n None t show ?thesis by (simp add: DatasetResource_replace_def db_begin_def)
  qed
qed

lemma replace_conflict_raises:
  "fst (fst (DatasetResource_replace (new_index sources_db) [dataset_s]
               [set_metadata_doc dataset_t other_doc])) = Some (ConflictError ''Dataset t'')"
  by (simp add: DatasetResource_replace_def archive_all_def archive_storage_unit_def other_doc_def
      add_defs store_defs type_read_defs dataset_defs example_defs)

lemma replace_returns:
  "fst (fst (DatasetResource_replace (new_index sources_db) [dataset_s] [dataset_e])) = None"
  by (simp add: DatasetResource_replace_def archive_all_def archive_storage_unit_def dataset_e_def
      add_defs store_defs type_read_defs dataset_defs example_defs)

theorem replace_is_one_transaction_witness:
  "fst (fst (DatasetResource_replace (new_index sources_db) [dataset_s]
               [set_metadata_doc dataset_t other_doc])) = Some (ConflictError ''Dataset t'') \<and>
   db (snd (DatasetResource_replace (new_index sources_db) [dataset_s]
               [set_metadata_doc dataset_t other_doc])) = sources_db \<and>
   fst (fst (DatasetResource_replace (new_index sources_db) [dataset_s] [dataset_e])) = None \<and>
   take 2 (dataset_table (db (snd (DatasetResource_replace (new_index sources_db) [dataset_s] [dataset_e]))))
     = [(stored_row ''s'')\<lparr>dsr_archived := True\<rparr>, stored_row ''t''] \<and>
   contains_dataset (db (snd (DatasetResource_replace (new_index sources_db) [dataset_s] [dataset_e]))) ''e''"
proof -
  have 1: "db (snd (DatasetResource_replace (new_index sources_db) [dataset_s]
               [set_metadata_doc dataset_t other_doc])) = sources_db"
    using replace_is_one_transaction [of "new_index sources_db" "[dataset_s]"
        "[set_metadata_doc dataset_t other_doc]"] replace_conflict_raises
    by (auto simp: new_index_def split: prod.splits option.splits)
  have 2: "take 2 (dataset_table (db (snd (DatasetResource_replace (new_index sources_db) [dataset_s] [dataset_e]))))
     = [(stored_row ''s'')\<lparr>dsr_archived := True\<rparr>, stored_row ''t''] \<and>
   contains_dataset (db (snd (DatasetResource_replace (new_index sources_db) [dataset_s] [dataset_e]))) ''e''"
  proof -
    obtain r n st1 where
      R: "DatasetResource_replace (new_index sources_db) [dataset_s] [dataset_e] = ((r, n), st1)"
      by (metis prod.collapse)
    with replace_returns have r: "r = None" by simp
    have t: "dataset_table (db (new_index sources_db)) = [stored_row ''s'', stored_row ''t'']"
      by (simp add: new_index_def sources_db_def)
    have i: "ds_id dataset_s = ''s''" "ds_id dataset_e = ''e''" "dsr_id (stored_row ''s'') = ''s''"
      "dsr_id (stored_row ''t'') = ''t''"
      by (simp_all add: dataset_s_def dataset_e_def stored_row_def)
    from replace_is_one_transaction [of "new_index sources_db" "[dataset_s]" "[dataset_e]"] R r
    have "take (length (dataset_table (db (new_index sources_db)))) (dataset_table (db st1)) =
          map (\<lambda>r. if dsr_id r \<in> set (map ds_id [dataset_s]) then r\<lparr>dsr_archived := True\<rparr> else r)
            (dataset_table (db (new_index sources_db)))"
      and "list_all (DatasetResource_has st1) [dataset_e]" by simp_all
    with t i R show ?thesis by (simp add: DatasetResource_has_def numeral_2_eq_2)
  qed
  from 1 2 replace_conflict_raises replace_returns show ?thesis by simp
qed

section \<open>count and search\<close>

lemma cache_getitem_Some:
  "cache_getitem now c k = Some v \<Longrightarrow> \<exists>expire. (k, v, expire) \<in> set c"
  by (auto simp: cache_getitem_def dest!: find_SomeD)

lemma set_cache_touch: "set (cache_touch k c) = set c"
  by (auto simp: cache_touch_def)

lemma set_cache_setitem: "set (cache_setitem now c k v) \<subseteq> insert (k, v, now + cache_ttl) (set c)"
  by (auto simp: cache_setitem_def dest: in_set_takeD)

lemma list_all_cache_touch: "list_all P (cache_touch k c) = list_all P c"
  by (simp add: list_all_iff set_cache_touch)

lemma list_all_cache_setitem:
  "list_all P c \<Longrightarrow> P (k, v, now + cache_ttl) \<Longrightarrow> list_all P (cache_setitem now c k v)"
  using set_cache_setitem [of now c k v] by (auto simp: list_all_iff)

lemma MetadataTypeResource_get_pure:
  assumes "caches_ok st"
  shows "fst (MetadataTypeResource_get st i) = read_metadata_type (db st) i \<and>
         caches_ok (snd (MetadataTypeResource_get st i)) \<and>
         db (snd (MetadataTypeResource_get st i)) = db st"
proof (cases "cache_getitem (timer st) (metadata_type_get_cache st) i")
  case None
  then show ?thesis
    using assms
    by (auto simp: MetadataTypeResource_get_def cached_def read_metadata_type_def caches_ok_def
        list_all_cache_setitem split: sum.splits)
next
  case (Some v)
  from cache_getitem_Some [OF Some] assms have "read_metadata_type (db st) i = Inr v"
    by (auto simp: caches_ok_def list_all_iff)
  with Some assms show ?thesis
    by (simp add: MetadataTypeResource_get_def cached_def caches_ok_def list_all_cache_touch)
qed

lemma DatasetTypeResource_make_pure:
  assumes "caches_ok st"
  shows "fst (DatasetTypeResource_make st (Some r)) = read_dataset_type_row (db st) r \<and>
         caches_ok (snd (DatasetTypeResource_make st (Some r))) \<and>
         db (snd (DatasetTypeResource_make st (Some r))) = db st \<and>
         dataset_type_get_cache (snd (DatasetTypeResource_make st (Some r))) = dataset_type_get_cache st"
proof -
  obtain a st1 where g: "MetadataTypeResource_get st (dtr_metadata_type_ref r) = (a, st1)"
    by (cases "MetadataTypeResource_get st (dtr_metadata_type_ref r)")
  have c: "dataset_type_get_cache st1 = dataset_type_get_cache st"
    using g by (auto simp: MetadataTypeResource_get_def cached_def split: option.splits sum.splits)
  from MetadataTypeResource_get_pure [OF assms, of "dtr_metadata_type_ref r"] g
  have "read_metadata_type (db st) (dtr_metadata_type_ref r) = a" "caches_ok st1" "db st1 = db st"
    by simp_all
  with g c show ?thesis
    by (cases a) (simp_all add: DatasetTypeResource_make_def read_dataset_type_row_def)
qed

lemma DatasetTypeResource_get_pure:
  assumes "caches_ok st"
  shows "fst (DatasetTypeResource_get st i) = read_dataset_type (db st) i \<and>
         caches_ok (snd (DatasetTypeResource_get st i)) \<and>
         db (snd (DatasetTypeResource_get st i)) = db st"
proof (cases "cache_getitem (timer st) (dataset_type_get_cache st) i")
  case (Some v)
  from cache_getitem_Some [OF Some] assms have "read_dataset_type (db st) i = Inr v"
    by (auto simp: caches_ok_def list_all_iff)
  with Some assms show ?thesis
    by (simp add: DatasetTypeResource_get_def cached_def caches_ok_def list_all_cache_touch)
next
  case None
  show ?thesis
  proof (cases "get_dataset_type (db st) i")
    case N: None
    with None assms show ?thesis
      by (simp add: DatasetTypeResource_get_def cached_def DatasetTypeResource_make_def
          read_dataset_type_def)
  next
    case (Some r)
    obtain a st1 where m: "DatasetTypeResource_make st (Some r) = (a, st1)"
      by (cases "DatasetTypeResource_make st (Some r)")
    from DatasetTypeResource_make_pure [OF assms, of r] m
    have f: "read_dataset_type_row (db st) r = a" "caches_ok st1" "db st1 = db st"
      "dataset_type_get_cache st1 = dataset_type_get_cache st" by simp_all
    show ?thesis
    proof (cases a)
      case (Inl e)
      with None Some m f show ?thesis
        by (simp add: DatasetTypeResource_get_def cached_def read_dataset_type_def)
    next
      case (Inr t)
      have "read_dataset_type (db st) i = Inr t" using Some f(1) Inr by (simp add: read_dataset_type_def)
      with None Some m f Inr show ?thesis
        by (simp add: DatasetTypeResource_get_def cached_def caches_ok_def list_all_cache_setitem)
    qed
  qed
qed

lemma advance_pure:
  assumes "caches_ok st"
  shows "fst (advance st p) = read_pending (db st) p \<and> caches_ok (snd (advance st p)) \<and>
         db (snd (advance st p)) = db st"
proof (cases p)
  case (Element t)
  with assms show ?thesis by (simp add: advance_def read_pending_def)
next
  case (Record r field_names)
  obtain a st1 where m: "DatasetTypeResource_make st (Some r) = (a, st1)"
    by (cases "DatasetTypeResource_make st (Some r)")
  from DatasetTypeResource_make_pure [OF assms, of r] m
  have "read_dataset_type_row (db st) r = a" "caches_ok st1" "db st1 = db st" by simp_all
  with Record m show ?thesis by (cases a) (simp_all add: advance_def read_pending_def)
qed

lemma DatasetResource_make_pure:
  assumes "caches_ok st"
  shows "fst (DatasetResource_make st (Some res)) =
           (case read_dataset_type (db st) (dataset_type_ref res) of
              Inl e \<Rightarrow> Inl e
            | Inr t \<Rightarrow> Inr (Dataset (res_id res) t (res_metadata res) (res_local_uri res) [])) \<and>
         caches_ok (snd (DatasetResource_make st (Some res))) \<and>
         db (snd (DatasetResource_make st (Some res))) = db st"
proof -
  obtain a st1 where g: "DatasetTypeResource_get st (dataset_type_ref res) = (a, st1)"
    by (cases "DatasetTypeResource_get st (dataset_type_ref res)")
  from DatasetTypeResource_get_pure [OF assms, of "dataset_type_ref res"] g
  have "read_dataset_type (db st) (dataset_type_ref res) = a" "caches_ok st1" "db st1 = db st"
    by simp_all
  with g show ?thesis by (cases a) (simp_all add: DatasetResource_make_def)
qed






lemma caches_ok_by_name_cache [simp]:
  "caches_ok (dataset_type_get_by_name_cache_update f st) = caches_ok st"
  by (simp add: caches_ok_def)

lemma DatasetTypeResource_get_by_name_ok:
  assumes "caches_ok st"
  shows "caches_ok (snd (DatasetTypeResource_get_by_name st n)) \<and>
         db (snd (DatasetTypeResource_get_by_name st n)) = db st"
proof (cases "cache_getitem (timer st) (dataset_type_get_by_name_cache st) n")
  case (Some v)
  with assms show ?thesis by (simp add: DatasetTypeResource_get_by_name_def cached_def)
next
  case None
  show ?thesis
  proof (cases "get_dataset_type_by_name (db st) n")
    case N: None
    with None assms show ?thesis by (simp add: DatasetTypeResource_get_by_name_def cached_def)
  next
    case (Some r)
    obtain a st1 where m: "DatasetTypeResource_make st (Some r) = (a, st1)"
      by (cases "DatasetTypeResource_make st (Some r)")
    from DatasetTypeResource_make_pure [OF assms, of r] m
    have "caches_ok st1" "db st1 = db st" by simp_all
    with None Some m show ?thesis
      by (cases a) (simp_all add: DatasetTypeResource_get_by_name_def cached_def)
  qed
qed

lemma get_dataset_types_ok:
  assumes "caches_ok st"
  shows "caches_ok (snd (get_dataset_types st q)) \<and> db (snd (get_dataset_types st q)) = db st"
proof (cases "''product'' \<in> set (map fst q)")
  case False
  with assms show ?thesis by (simp add: get_dataset_types_def truth_of_def)
next
  case True
  show ?thesis
  proof (cases "map_of q ''product''")
    case None
    with True assms show ?thesis by (simp add: get_dataset_types_def)
  next
    case (Some v)
    show ?thesis
    proof (cases v)
      case (QStr n)
      obtain a st1 where g: "DatasetTypeResource_get_by_name st n = (a, st1)"
        by (cases "DatasetTypeResource_get_by_name st n")
      with DatasetTypeResource_get_by_name_ok [OF assms, of n] have "caches_ok st1" "db st1 = db st"
        by simp_all
      with True Some QStr g show ?thesis by (cases a) (simp_all add: get_dataset_types_def)
    next
      case (QNum x)
      with True Some assms show ?thesis by (simp add: get_dataset_types_def)
    next
      case (QRange x y)
      with True Some assms show ?thesis by (simp add: get_dataset_types_def)
    qed
  qed
qed





section \<open>Every operation keeps the index consistent\<close>

subsection \<open>The caches after a write\<close>

lemma read_metadata_type_tables:
  "metadata_type_table d' = metadata_type_table d \<Longrightarrow> read_metadata_type d' = read_metadata_type d"
  by (rule ext) (simp add: read_metadata_type_def get_metadata_type_def)

lemma read_dataset_type_tables:
  assumes "metadata_type_table d' = metadata_type_table d" "dataset_type_table d' = dataset_type_table d"
  shows "read_dataset_type d' = read_dataset_type d"
proof -
  have "read_dataset_type_row d' = read_dataset_type_row d"
    by (intro ext) (simp add: read_dataset_type_row_def read_metadata_type_tables [OF assms(1)])
  with assms(2) show ?thesis
    by (intro ext) (simp add: read_dataset_type_def get_dataset_type_def split: option.splits)
qed

lemma caches_ok_tables:
  assumes "metadata_type_table (db st') = metadata_type_table (db st)"
    "dataset_type_table (db st') = dataset_type_table (db st)"
    "metadata_type_get_cache st' = metadata_type_get_cache st"
    "dataset_type_get_cache st' = dataset_type_get_cache st"
  shows "caches_ok st' = caches_ok st"
  using assms read_metadata_type_tables [OF assms(1)] read_dataset_type_tables [OF assms(1,2)]
  by (simp add: caches_ok_def)

lemma caches_ok_extends: "extends (db st) d \<Longrightarrow> caches_ok (st\<lparr>db := d\<rparr>) = caches_ok st"
  by (rule caches_ok_tables) (simp_all add: extends_def)

lemma caches_ok_restore:
  "extends (db st) (db st1) \<Longrightarrow> caches_ok (st1\<lparr>db := db st\<rparr>) = caches_ok st1"
  by (rule caches_ok_tables) (simp_all add: extends_def)

lemma DatasetResource_get_caches_ok:
  "caches_ok st \<Longrightarrow> caches_ok (snd (DatasetResource_get st i))"
  by (cases "get_dataset (db st) i")
     (simp_all add: DatasetResource_get_def DatasetResource_make_pure, simp add: DatasetResource_make_def)

lemma check_existing_caches_ok:
  assumes "caches_ok st"
  shows "caches_ok (snd (check_existing st x))"
proof -
  obtain a st1 where g: "DatasetResource_get st (ds_id x) = (a, st1)"
    by (cases "DatasetResource_get st (ds_id x)")
  with DatasetResource_get_caches_ok [OF assms, of "ds_id x"] have "caches_ok st1" by simp
  with g show ?thesis by (cases a) (simp_all add: check_existing_def)
qed

lemma ensure_location_caches_ok:
  assumes "caches_ok st"
  shows "caches_ok (snd (ensure_location st x))"
proof -
  have "snd (ensure_location st x) = st \<or>
        (\<exists>d. snd (ensure_location st x) = st\<lparr>db := d\<rparr> \<and> extends (db st) d)"
    by (auto simp: ensure_location_def dest: ensure_dataset_location_extends
        split: option.splits sum.splits)
  with assms caches_ok_extends show ?thesis by auto
qed

lemma insert_dataset_and_sources_state:
  "\<exists>d2. snd (insert_dataset_and_sources x st) = st\<lparr>db := d2\<rparr> \<and> extends (db st) d2"
proof (cases "insert_dataset (db st) (metadata_doc x) (ds_id x) (dt_id (ds_type x))")
  case (Inl e)
  then have "snd (insert_dataset_and_sources x st) = st\<lparr>db := db st\<rparr>"
    by (simp add: insert_dataset_and_sources_def)
  then show ?thesis using extends_refl by blast
next
  case (Inr p)
  obtain b d1 where p: "p = (b, d1)" by (cases p)
  obtain r d2 where l: "insert_dataset_sources d1 (ds_id x) (sources x) = (r, d2)"
    by (cases "insert_dataset_sources d1 (ds_id x) (sources x)")
  have "extends (db st) d2"
    using insert_dataset_extends [OF Inr [unfolded p]] insert_dataset_sources_extends [OF l]
    by (rule extends_trans)
  moreover have "snd (insert_dataset_and_sources x st) = st\<lparr>db := d2\<rparr>"
    using Inr p l by (simp add: insert_dataset_and_sources_def split: option.splits)
  ultimately show ?thesis by blast
qed

lemma index_stripped_caches_ok:
  assumes "caches_ok st"
  shows "caches_ok (snd (snd (index_stripped st x)))"
proof -
  let ?s = "set_metadata_doc x (stripped_doc x)"
  obtain a st0 where blk: "insert_dataset_and_sources ?s st = (a, st0)"
    by (cases "insert_dataset_and_sources ?s st")
  from insert_dataset_and_sources_state [of ?s st] blk obtain d2 where
    st0: "st0 = st\<lparr>db := d2\<rparr>" "extends (db st) d2" by auto
  have c0: "caches_ok st0" using st0 assms caches_ok_extends by simp
  have c1: "caches_ok (st0\<lparr>db := db st\<rparr>)" using st0 assms by simp
  show ?thesis
  proof (cases a)
    case (Inl e)
    with blk c1 show ?thesis by (simp add: index_stripped_unfold db_begin_def)
  next
    case (Inr w)
    with blk c0 check_existing_caches_ok [OF c0, of ?s] show ?thesis
      by (auto simp: index_stripped_unfold db_begin_def split: prod.splits)
  qed
qed

lemma add_dataset_caches_ok:
  assumes "caches_ok st"
  shows "caches_ok (snd (snd (add_dataset st x)))"
proof -
  obtain r x1 st1 where i: "index_stripped st x = (r, x1, st1)"
    by (cases "index_stripped st x") auto
  with index_stripped_caches_ok [OF assms, of x] have c: "caches_ok st1" by simp
  show ?thesis
  proof (cases r)
    case (Inl e)
    with i c show ?thesis by (simp add: add_dataset_def)
  next
    case (Inr u)
    with i ensure_location_caches_ok [OF c, of x1] show ?thesis
      by (auto simp: add_dataset_def split: prod.splits sum.splits)
  qed
qed

lemma add_caches_ok_mutual:
  "caches_ok st \<longrightarrow> caches_ok (snd (snd (DatasetResource_add st x skip)))"
  "caches_ok st \<longrightarrow> caches_ok (snd (snd (add_sources st srcs)))"
proof (induction st x skip and st srcs rule: DatasetResource_add_add_sources.induct)
  case (1 st i t m u srcs skip_sources)
  show ?case
  proof
    assume c: "caches_ok st"
    show "caches_ok (snd (snd (DatasetResource_add st (Dataset i t m u srcs) skip_sources)))"
    proof (cases skip_sources)
      case True
      with add_dataset_caches_ok [OF c] show ?thesis by simp
    next
      case False
      obtain r srcs1 st1 where a: "add_sources st srcs = (r, srcs1, st1)"
        by (cases "add_sources st srcs") auto
      with 1 False c have c1: "caches_ok st1" by simp
      show ?thesis
      proof (cases r)
        case None
        with a False add_dataset_caches_ok [OF c1, of "Dataset i t m u srcs1"] show ?thesis by simp
      next
        case (Some e)
        with a False c1 show ?thesis by simp
      qed
    qed
  qed
next
  case (2 st)
  then show ?case by simp
next
  case (3 st classifier source rest)
  show ?case
  proof
    assume c: "caches_ok st"
    obtain r s1 st1 where a: "DatasetResource_add st source False = (r, s1, st1)"
      by (cases "DatasetResource_add st source False") auto
    with 3(1) c have c1: "caches_ok st1" by simp
    show "caches_ok (snd (snd (add_sources st ((classifier, source) # rest))))"
    proof (cases r)
      case (Inl e)
      with a c1 show ?thesis by simp
    next
      case (Inr y)
      with 3(2) [OF a [symmetric] Inr refl] c1 a show ?thesis
        by (auto split: prod.splits)
    qed
  qed
qed

lemma add_keeps_index_ok:
  assumes "index_ok st"
  shows "index_ok (snd (snd (DatasetResource_add st x skip)))"
  using assms add_extends_mutual(1) [of st x skip] add_caches_ok_mutual(1) [of st x skip]
  by (simp add: index_ok_def extends_def)

subsection \<open>A new index, and \<open>replace\<close>\<close>

lemma index_ok_new_index: "index_ok (new_index empty_db)"
  by (simp add: index_ok_def caches_ok_def store_ok_def types_ok_def new_index_def empty_db_def)

lemma add_all_caches_ok: "caches_ok st \<Longrightarrow> caches_ok (snd (snd (add_all st units)))"
proof (induction units arbitrary: st)
  case Nil
  then show ?case by simp
next
  case (Cons u units)
  obtain r u1 st1 where a: "DatasetResource_add st u False = (r, u1, st1)"
    by (cases "DatasetResource_add st u False") auto
  with add_caches_ok_mutual(1) [of st u False] Cons.prems have c: "caches_ok st1" by simp
  show ?case
  proof (cases r)
    case (Inl e)
    with a c show ?thesis by simp
  next
    case (Inr y)
    with a Cons.IH [OF c] show ?thesis by (auto split: prod.splits)
  qed
qed

lemma archive_all_tables:
  "metadata_type_table (archive_all units d) = metadata_type_table d \<and>
   dataset_type_table (archive_all units d) = dataset_type_table d"
proof (induction units arbitrary: d)
  case Nil
  then show ?case by (simp add: archive_all_def)
next
  case (Cons u units)
  have "archive_all (u # units) d = archive_all units (archive_storage_unit d (ds_id u))"
    by (simp add: archive_all_def)
  with Cons [of "archive_storage_unit d (ds_id u)"] show ?case
    by (simp add: archive_storage_unit_def)
qed

lemma marked_ids:
  "map dsr_id (map (\<lambda>r. if Q r then r\<lparr>dsr_archived := True\<rparr> else r) rows) = map dsr_id rows"
  by (induction rows) auto

lemma store_ok_archive_all:
  assumes "store_ok d"
  shows "store_ok (archive_all units d)"
proof -
  let ?d = "archive_all units d"
  have t: "metadata_type_table ?d = metadata_type_table d" "dataset_type_table ?d = dataset_type_table d"
    by (simp_all add: archive_all_tables)
  have "list_all (\<lambda>r. get_dataset_type d (dsr_dataset_type_ref r) \<noteq> None) (dataset_table ?d)"
    using assms by (auto simp: store_ok_def archive_all_table list_all_iff)
  moreover have "get_dataset_type ?d = get_dataset_type d"
    by (intro ext) (simp add: get_dataset_type_def t)
  moreover have "types_ok ?d" using assms t by (simp add: store_ok_def types_ok_def get_metadata_type_def)
  moreover have "distinct (map dsr_id (dataset_table ?d))"
    using assms by (simp add: store_ok_def archive_all_table marked_ids del: map_map)
  ultimately show ?thesis by (simp add: store_ok_def)
qed

lemma replace_keeps_index_ok:
  assumes "index_ok st"
  shows "index_ok (snd (DatasetResource_replace st old_datasets new_datasets))"
proof -
  let ?st0 = "st\<lparr>db := archive_all old_datasets (db st)\<rparr>"
  obtain r new1 st1 where a: "add_all ?st0 new_datasets = (r, new1, st1)"
    by (cases "add_all ?st0 new_datasets") auto
  have t0: "metadata_type_table (db ?st0) = metadata_type_table (db st)"
      "dataset_type_table (db ?st0) = dataset_type_table (db st)"
    by (simp_all add: archive_all_tables)
  have "caches_ok ?st0 = caches_ok st"
    by (rule caches_ok_tables) (simp_all add: archive_all_tables)
  with assms have c0: "caches_ok ?st0" by (simp add: index_ok_def)
  from add_all_caches_ok [OF c0, of new_datasets] a have c1: "caches_ok st1" by simp
  from add_all_extends [of ?st0 new_datasets] a have e: "extends (db ?st0) (db st1)" by simp
  have ok0: "store_ok (db ?st0)" using assms store_ok_archive_all by (simp add: index_ok_def)
  with e have ok1: "store_ok (db st1)" by (simp add: extends_def)
  have "caches_ok (st1\<lparr>db := db st\<rparr>) = caches_ok st1"
    using e t0 by (intro caches_ok_tables) (simp_all add: extends_def)
  with c1 assms have restored: "index_ok (st1\<lparr>db := db st\<rparr>)" by (simp add: index_ok_def)
  from a restored c1 ok1 show ?thesis
    by (cases r) (simp_all add: DatasetResource_replace_def db_begin_def index_ok_def)
qed

subsection \<open>Metadata types and dataset types\<close>

lemma MetadataTypeResource_get_by_name_ok:
  assumes "index_ok st"
  shows "index_ok (snd (MetadataTypeResource_get_by_name st n))"
proof -
  let ?st = "snd (MetadataTypeResource_get_by_name st n)"
  have "db ?st = db st \<and> metadata_type_get_cache ?st = metadata_type_get_cache st \<and>
        dataset_type_get_cache ?st = dataset_type_get_cache st"
    by (auto simp: MetadataTypeResource_get_by_name_def cached_def
        split: option.splits sum.splits)
  with assms show ?thesis by (simp add: index_ok_def caches_ok_def)
qed

lemma validated_has_dataset:
  "MetadataType_validate definition_doc = Inr u \<Longrightarrow> \<not> isl (getitem definition_doc ''dataset'')"
  by (auto simp: MetadataType_validate_def split: sum.splits pyval.splits)

lemma get_metadata_type_added:
  "get_metadata_type d i = Some m \<Longrightarrow> get_metadata_type (add_metadata_type d n doc c) i = Some m"
  by (simp add: get_metadata_type_def add_metadata_type_def find_append_Some)

lemma read_metadata_type_added:
  assumes "read_metadata_type d i = Inr v"
  shows "read_metadata_type (add_metadata_type d n doc c) i = Inr v"
proof -
  from assms obtain m where "get_metadata_type d i = Some m"
    by (cases "get_metadata_type d i") (auto simp: read_metadata_type_def MetadataTypeResource_make_def)
  with get_metadata_type_added [OF this] assms show ?thesis by (simp add: read_metadata_type_def)
qed

lemma read_dataset_type_added:
  assumes "read_dataset_type d i = Inr v"
  shows "read_dataset_type (add_metadata_type d n doc c) i = Inr v"
proof -
  from assms obtain r where r: "get_dataset_type d i = Some r"
    by (cases "get_dataset_type d i") (auto simp: read_dataset_type_def)
  with assms obtain mt where "read_metadata_type d (dtr_metadata_type_ref r) = Inr mt"
    by (auto simp: read_dataset_type_def read_dataset_type_row_def split: sum.splits)
  from read_metadata_type_added [OF this] r assms
  have "read_dataset_type_row (add_metadata_type d n doc c) r = read_dataset_type_row d r"
    using \<open>read_metadata_type d (dtr_metadata_type_ref r) = Inr mt\<close>
    by (simp add: read_dataset_type_row_def)
  moreover have "get_dataset_type (add_metadata_type d n doc c) i = Some r"
    using r by (simp add: get_dataset_type_def add_metadata_type_def)
  ultimately show ?thesis using r assms by (simp add: read_dataset_type_def)
qed

lemma add_metadata_type_index_ok:
  assumes ok: "index_ok st" and valid: "\<not> isl (getitem definition_doc ''dataset'')"
  shows "index_ok (st\<lparr>db := add_metadata_type (db st) n definition_doc c\<rparr>)"
proof -
  let ?d = "add_metadata_type (db st) n definition_doc c"
  have t: "dataset_type_table ?d = dataset_type_table (db st)"
      "dataset_table ?d = dataset_table (db st)"
      "metadata_type_table ?d = metadata_type_table (db st) @
         [\<lparr>mtr_id = next_id (map mtr_id (metadata_type_table (db st))), mtr_name = n,
           mtr_definition = definition_doc\<rparr>]"
    by (simp_all add: add_metadata_type_def)
  have refs: "list_all (\<lambda>t. get_metadata_type ?d (dtr_metadata_type_ref t) \<noteq> None)
      (dataset_type_table (db st))"
    using ok get_metadata_type_added [of "db st" _ _ n definition_doc c]
    by (auto simp: index_ok_def store_ok_def types_ok_def list_all_iff)
  have "store_ok ?d"
    using ok valid t refs
    by (simp add: index_ok_def store_ok_def types_ok_def get_dataset_type_def)
  moreover have "caches_ok (st\<lparr>db := ?d\<rparr>)"
    using ok read_metadata_type_added [of "db st" _ _ n definition_doc c]
      read_dataset_type_added [of "db st" _ _ n definition_doc c]
    by (auto simp: index_ok_def caches_ok_def list_all_iff)
  ultimately show ?thesis by (simp add: index_ok_def)
qed

lemma MetadataTypeResource_add_keeps_index_ok:
  assumes "index_ok st"
  shows "index_ok (snd (MetadataTypeResource_add st definition_doc allow_table_lock))"
proof (cases "MetadataType_validate definition_doc")
  case (Inl e)
  with assms show ?thesis by (simp add: MetadataTypeResource_add_def)
next
  case (Inr u)
  note v = validated_has_dataset [OF Inr]
  show ?thesis
  proof (cases "name_of definition_doc")
    case (Inl e)
    with Inr assms show ?thesis by (simp add: MetadataTypeResource_add_def)
  next
    case N: (Inr n)
    show ?thesis
    proof (cases "get_metadata_type_by_name (db st) n")
      case None
      with Inr N MetadataTypeResource_get_by_name_ok [OF add_metadata_type_index_ok [OF assms v]]
      show ?thesis by (simp add: MetadataTypeResource_add_def)
    next
      case (Some existing)
      with Inr N assms MetadataTypeResource_get_by_name_ok [OF assms] show ?thesis
        by (simp add: MetadataTypeResource_add_def split: sum.splits)
    qed
  qed
qed

lemma add_dataset_type_index_ok:
  assumes ok: "index_ok st"
    and added: "add_dataset_type (db st) n metadata metadata_type_id definition_doc = Inr d"
  shows "index_ok (st\<lparr>db := d\<rparr>)"
proof -
  let ?r = "\<lparr>dtr_id = next_id (map dtr_id (dataset_type_table (db st))), dtr_name = n,
           dtr_metadata = metadata, dtr_metadata_type_ref = metadata_type_id,
           dtr_definition = definition_doc\<rparr>"
  from added have fk: "get_metadata_type (db st) metadata_type_id \<noteq> None"
      and d: "d = (db st)\<lparr>dataset_type_table := dataset_type_table (db st) @ [?r]\<rparr>"
    by (auto simp: add_dataset_type_def split: if_splits)
  have t: "metadata_type_table d = metadata_type_table (db st)"
      "dataset_table d = dataset_table (db st)"
      "dataset_type_table d = dataset_type_table (db st) @ [?r]"
    using d by simp_all
  have g: "get_dataset_type (db st) i = Some r \<Longrightarrow> get_dataset_type d i = Some r" for i r
    using t by (simp add: get_dataset_type_def find_append_Some)
  have m: "get_metadata_type d = get_metadata_type (db st)"
    using t by (intro ext) (simp add: get_metadata_type_def)
  have "types_ok d"
    using ok fk t m by (simp add: index_ok_def store_ok_def types_ok_def)
  moreover have "list_all (\<lambda>r. get_dataset_type d (dsr_dataset_type_ref r) \<noteq> None) (dataset_table d)"
    using ok t g by (auto simp: index_ok_def store_ok_def list_all_iff)
  ultimately have s: "store_ok d" using ok t by (simp add: index_ok_def store_ok_def)
  have rm: "read_metadata_type d = read_metadata_type (db st)"
    using t by (intro read_metadata_type_tables) simp
  have rd: "read_dataset_type (db st) i = Inr v \<Longrightarrow> read_dataset_type d i = Inr v" for i v
  proof -
    assume a: "read_dataset_type (db st) i = Inr v"
    then obtain r where r: "get_dataset_type (db st) i = Some r"
      by (cases "get_dataset_type (db st) i") (auto simp: read_dataset_type_def)
    with a g [OF r] rm show ?thesis by (simp add: read_dataset_type_def read_dataset_type_row_def)
  qed
  have "caches_ok (st\<lparr>db := d\<rparr>)"
    using ok rm rd by (auto simp: index_ok_def caches_ok_def list_all_iff)
  with s show ?thesis by (simp add: index_ok_def)
qed

lemma DatasetTypeResource_get_by_name_index_ok:
  "index_ok st \<Longrightarrow> index_ok (snd (DatasetTypeResource_get_by_name st n))"
  using DatasetTypeResource_get_by_name_ok [of st n] by (simp add: index_ok_def)

lemma DatasetTypeResource_add_keeps_index_ok:
  assumes "index_ok st"
  shows "index_ok (snd (DatasetTypeResource_add st dtype))"
proof (cases "DatasetType_validate (dt_definition dtype)")
  case (Inl e)
  with assms show ?thesis by (simp add: DatasetTypeResource_add_def)
next
  case (Inr u)
  show ?thesis
  proof (cases "get_dataset_type_by_name (db st) (dt_name dtype)")
    case (Some existing)
    with Inr assms DatasetTypeResource_get_by_name_index_ok [OF assms] show ?thesis
      by (simp add: DatasetTypeResource_add_def split: sum.splits)
  next
    case None
    show ?thesis
    proof (cases "add_dataset_type (db st) (dt_name dtype) (dt_metadata dtype)
                      (mt_id (dt_metadata_type dtype)) (dt_definition dtype)")
      case (Inl e)
      with Inr None assms show ?thesis by (simp add: DatasetTypeResource_add_def)
    next
      case D: (Inr d)
      from DatasetTypeResource_get_by_name_index_ok [OF add_dataset_type_index_ok [OF assms D]]
      show ?thesis using Inr None D by (simp add: DatasetTypeResource_add_def)
    qed
  qed
qed

subsection \<open>\<open>get\<close>, \<open>search\<close> and \<open>count\<close>\<close>

lemma DatasetResource_make_keeps:
  "caches_ok st \<Longrightarrow>
   caches_ok (snd (DatasetResource_make st res)) \<and> db (snd (DatasetResource_make st res)) = db st"
  by (cases res) (simp_all add: DatasetResource_make_pure, simp add: DatasetResource_make_def)

lemma yield_all_keeps:
  assumes "\<And>st x. caches_ok st \<Longrightarrow> caches_ok (snd (consume st x)) \<and> db (snd (consume st x)) = db st"
    and "caches_ok st"
  shows "caches_ok (snd (yield_all consume st xs)) \<and> db (snd (yield_all consume st xs)) = db st"
  using assms(2)
proof (induction xs arbitrary: st)
  case Nil
  then show ?case by simp
next
  case (Cons x xs)
  obtain a st1 where c: "consume st x = (a, st1)" by (cases "consume st x")
  with assms(1) [OF Cons.prems, of x] have 1: "caches_ok st1" "db st1 = db st" by simp_all
  show ?case
  proof (cases a)
    case (Inl e)
    with c 1 show ?thesis by simp
  next
    case (Inr y)
    with c 1 Cons.IH [OF 1(1)] show ?thesis by (auto split: prod.splits sum.splits)
  qed
qed

lemma search_loop_keeps:
  assumes "\<And>st x. caches_ok st \<Longrightarrow> caches_ok (snd (consume st x)) \<and> db (snd (consume st x)) = db st"
    and "caches_ok st"
  shows "caches_ok (snd (snd (search_loop consume rf ws q ps h st))) \<and>
         db (snd (snd (search_loop consume rf ws q ps h st))) = db st"
  using assms(2)
proof (induction ps arbitrary: h st)
  case Nil
  then show ?case by simp
next
  case (Cons p ps)
  obtain a st1 where adv: "advance st p = (a, st1)" by (cases "advance st p")
  from advance_pure [OF Cons.prems, of p] adv have 1: "caches_ok st1" "db st1 = db st" by simp_all
  show ?case
  proof (cases a)
    case (Inl e)
    with adv 1 show ?thesis by simp
  next
    case (Inr o1)
    show ?thesis
    proof (cases o1)
      case None
      with Inr adv 1 Cons.IH [OF 1(1)] show ?thesis by simp
    next
      case (Some t)
      obtain c h1 where pc: "pin_and_compile h q t = (c, h1)" by (cases "pin_and_compile h q t")
      show ?thesis
      proof (cases c)
        case (Inl e)
        with Inr Some adv pc 1 show ?thesis by simp
      next
        case R: (Inr te)
        obtain t1 query_exprs where te: "te = (t1, query_exprs)" by (cases te)
        let ?rows = "search_datasets (db st1) query_exprs
                          (if rf then Some (map snd (dataset_fields (dt_metadata_type t1))) else None) ws"
        obtain y st2 where y: "yield_all consume st1 ?rows = (y, st2)"
          by (cases "yield_all consume st1 ?rows")
        from yield_all_keeps [of consume st1 ?rows, OF assms(1) 1(1)] y
        have 2: "caches_ok st2" "db st2 = db st1" by simp_all
        show ?thesis
        proof (cases y)
          case (Inl e)
          with Inr Some adv pc R te y 1 2 show ?thesis by simp
        next
          case I: (Inr items)
          with Inr Some adv pc R te y 1 2 Cons.IH [OF 2(1), of h1] show ?thesis
            by (auto split: prod.splits sum.splits)
        qed
      qed
    qed
  qed
qed

lemma count_loop_keeps:
  assumes "caches_ok st"
  shows "caches_ok (snd (snd (count_loop q ps n h st))) \<and>
         db (snd (snd (count_loop q ps n h st))) = db st"
  using assms
proof (induction ps arbitrary: n h st)
  case Nil
  then show ?case by simp
next
  case (Cons p ps)
  obtain a st1 where adv: "advance st p = (a, st1)" by (cases "advance st p")
  from advance_pure [OF Cons.prems, of p] adv have 1: "caches_ok st1" "db st1 = db st" by simp_all
  show ?case
  proof (cases a)
    case (Inl e)
    with adv 1 show ?thesis by simp
  next
    case (Inr o1)
    show ?thesis
    proof (cases o1)
      case None
      with Inr adv 1 Cons.IH [OF 1(1)] show ?thesis by simp
    next
      case (Some t)
      obtain c h1 where pc: "pin_and_compile h q t = (c, h1)" by (cases "pin_and_compile h q t")
      show ?thesis
      proof (cases c)
        case (Inl e)
        with Inr Some adv pc 1 show ?thesis by simp
      next
        case R: (Inr te)
        obtain t1 query_exprs where te: "te = (t1, query_exprs)" by (cases te)
        from Inr Some adv pc R te 1 Cons.IH [OF 1(1)] show ?thesis by simp
      qed
    qed
  qed
qed

lemma do_search_keeps:
  assumes "\<And>st x. caches_ok st \<Longrightarrow> caches_ok (snd (consume st x)) \<and> db (snd (consume st x)) = db st"
    and "index_ok st"
  shows "index_ok (snd (snd (do_search consume st h query_ref rf ws)))"
proof -
  let ?q = "(h @ [h ! query_ref]) ! length h"
  obtain g st1 where g: "get_dataset_types st ?q = (g, st1)"
    by (cases "get_dataset_types st ?q")
  from get_dataset_types_ok [of st ?q] g assms(2) have 1: "caches_ok st1" "db st1 = db st"
    by (simp_all add: index_ok_def)
  show ?thesis
  proof (cases g)
    case (Inl e)
    with g 1 assms(2) show ?thesis by (simp add: do_search_def copy_query_def index_ok_def)
  next
    case (Inr types)
    from search_loop_keeps [of consume st1, OF assms(1) 1(1)] g Inr 1 assms(2) show ?thesis
      by (simp add: do_search_def copy_query_def index_ok_def)
  qed
qed

lemma search_and_count_keep_index_ok:
  assumes "index_ok st"
  shows "index_ok (snd (snd (DatasetResource_search st h query_ref)))"
    and "index_ok (snd (snd (DatasetResource_search_summaries st h query_ref)))"
    and "index_ok (snd (snd (DatasetResource_count st h query_ref)))"
    and "index_ok (snd (DatasetResource_get st i))"
proof -
  show "index_ok (snd (snd (DatasetResource_search st h query_ref)))"
    unfolding DatasetResource_search_def
    by (rule do_search_keeps [OF _ assms]) (simp add: DatasetResource_make_keeps)
  show "index_ok (snd (snd (DatasetResource_search_summaries st h query_ref)))"
    unfolding DatasetResource_search_summaries_def
    by (rule do_search_keeps [OF _ assms]) simp
  show "index_ok (snd (snd (DatasetResource_count st h query_ref)))"
  proof -
    let ?q = "(h @ [h ! query_ref]) ! length h"
    obtain g st1 where g: "get_dataset_types st ?q = (g, st1)"
      by (cases "get_dataset_types st ?q")
    from get_dataset_types_ok [of st ?q] g assms have 1: "caches_ok st1" "db st1 = db st"
      by (simp_all add: index_ok_def)
    show ?thesis
    proof (cases g)
      case (Inl e)
      with g 1 assms show ?thesis
        by (simp add: DatasetResource_count_def do_count_def copy_query_def index_ok_def)
    next
      case (Inr types)
      from count_loop_keeps [OF 1(1)] g Inr 1 assms show ?thesis
        by (simp add: DatasetResource_count_def do_count_def copy_query_def index_ok_def)
    qed
  qed
  show "index_ok (snd (DatasetResource_get st i))"
    using assms DatasetResource_make_keeps [of st "get_dataset (db st) i"]
    by (simp add: DatasetResource_get_def index_ok_def)
qed


end
